theory Spec2Isabelle
  imports Main "HOL-Library.Sublist"
begin

section \<open>Strings\<close>

text \<open>
  Source strings are modelled as \<^typ>\<open>string\<close>, one \<^typ>\<open>char\<close> per code unit, over
  the ASCII range that component names, tags and class names are written in.
  \<open>toLowerCase\<close> maps the letters \<open>A\<close> to \<open>Z\<close> to \<open>a\<close> to \<open>z\<close> and leaves every other
  character as it is, which is what the source's \<open>toLowerCase\<close> does on ASCII strings;
  letters outside ASCII are not modelled.
\<close>

definition lower_char :: "char \<Rightarrow> char" where
  "lower_char c =
     (let n = (of_char c :: nat) in if 65 \<le> n \<and> n \<le> 90 then char_of (n + 32) else c)"

definition toLowerCase :: "string \<Rightarrow> string" where
  "toLowerCase s = map lower_char s"

text \<open>
  \<open>s.includes(sub)\<close>: is \<open>sub\<close> a contiguous part of \<open>s\<close>. The search tries every
  start position from the left.
\<close>

fun startsWith :: "string \<Rightarrow> string \<Rightarrow> bool" where
  "startsWith s [] = True"
| "startsWith [] (c # sub) = False"
| "startsWith (d # s) (c # sub) = (d = c \<and> startsWith s sub)"

fun str_includes :: "string \<Rightarrow> string \<Rightarrow> bool" where
  "str_includes [] sub = (sub = [])"
| "str_includes (d # s) sub = (startsWith (d # s) sub \<or> str_includes s sub)"

section \<open>Component records\<close>

datatype category = Atom | Molecule | Organism | Template | Pattern

datatype complexity = Simple | Moderate | Complex

datatype wcag = A | AA | AAA

datatype migration = Documented | Pending | Integrated

text \<open>
  \<open>ComponentMetadata\<close>. The registry data holds \<open>null\<close> in \<open>schema\<close> and \<open>documentation\<close>
  for components without the artifact, so both are optional here (\<open>None\<close> is \<open>null\<close>).
  \<open>migrationStatus\<close> is the field the code reads through a cast; it may be missing.
\<close>

record ComponentMetadata =
  name :: string
  category :: category
  path :: string
  schema :: "string option"
  documentation :: "string option"
  internalDependencies :: "string list"
  externalDependencies :: "string list"
  componentDependencies :: "string list"
  tags :: "string list"
  complexity :: complexity
  lastUpdated :: string
  version :: string
  description :: string
  wcagLevel :: wcag
  hasTesting :: bool
  hasStorybook :: bool
  migrationStatus :: "migration option"

text \<open>Truthiness of an optional string: \<open>null\<close> and the empty string are falsy.\<close>

definition truthy :: "string option \<Rightarrow> bool" where
  "truthy s = (case s of None \<Rightarrow> False | Some t \<Rightarrow> t \<noteq> [])"

section \<open>AgentAPI\<close>

record AgentAPI =
  components :: "ComponentMetadata list"
  componentMap :: "string \<rightharpoonup> ComponentMetadata"

text \<open>
  The constructor takes the registry file's component list and fills the lookup map in
  list order; \<open>Map.set\<close> replaces the value of a key that is already there.
\<close>

definition AgentAPI_constructor :: "ComponentMetadata list \<Rightarrow> AgentAPI" where
  "AgentAPI_constructor fullRegistry =
     \<lparr> components = fullRegistry,
       componentMap = fold (\<lambda>component m. m(toLowerCase (name component) \<mapsto> component))
                        fullRegistry Map.empty \<rparr>"

definition getComponent :: "AgentAPI \<Rightarrow> string \<Rightarrow> ComponentMetadata option" where
  "getComponent api nm = componentMap api (toLowerCase nm)"

definition getAllComponents :: "AgentAPI \<Rightarrow> ComponentMetadata list" where
  "getAllComponents api = components api"

text \<open>The registry declared in the registry module: one migrated component.\<close>

definition Button_metadata :: ComponentMetadata where
  "Button_metadata =
     \<lparr> name = ''Button'',
       category = Atom,
       path = ''src/components/atoms/button/Button.tsx'',
       schema = Some ''src/components/atoms/button/Button.schema.json'',
       documentation = Some ''src/components/atoms/button/Button.md'',
       internalDependencies = [''cn''],
       externalDependencies = [''@radix-ui/react-slot'', ''class-variance-authority''],
       componentDependencies = [],
       tags = [''interactive'', ''form'', ''action'', ''navigation'', ''clickable''],
       complexity = Simple,
       lastUpdated = ''2024-11-17'',
       version = ''1.0.0'',
       description = ''A versatile button component with multiple variants and sizes for user interactions'',
       wcagLevel = AA,
       hasTesting = False,
       hasStorybook = False,
       migrationStatus = None \<rparr>"

definition componentRegistry :: "ComponentMetadata list" where
  "componentRegistry = [Button_metadata]"

subsection \<open>Discovery\<close>

record ComponentFilters =
  f_category :: "category option"
  f_tags :: "string list option"
  f_complexity :: "complexity option"
  f_migrationStatus :: "migration option"
  f_hasSchema :: "bool option"
  f_hasDocumentation :: "bool option"
  f_hasTesting :: "bool option"

text \<open>
  \<open>discoverComponents\<close>: every filter that is present narrows the running result, in
  the order of the source. A tag list narrows only when it is not empty.
\<close>

definition discoverComponents :: "AgentAPI \<Rightarrow> ComponentFilters option \<Rightarrow> ComponentMetadata list" where
  "discoverComponents api filters =
     (case filters of
        None \<Rightarrow> components api
      | Some f \<Rightarrow>
          (let results = components api;
               results = (case f_category f of
                            Some cat \<Rightarrow> filter (\<lambda>c. category c = cat) results
                          | None \<Rightarrow> results);
               results = (case f_tags f of
                            Some ts \<Rightarrow>
                              if length ts > 0
                              then filter (\<lambda>c. \<exists>tag \<in> set ts. tag \<in> set (tags c)) results
                              else results
                          | None \<Rightarrow> results);
               results = (case f_complexity f of
                            Some cx \<Rightarrow> filter (\<lambda>c. complexity c = cx) results
                          | None \<Rightarrow> results);
               results = (case f_migrationStatus f of
                            Some ms \<Rightarrow> filter (\<lambda>c. migrationStatus c = Some ms) results
                          | None \<Rightarrow> results);
               results = (case f_hasSchema f of
                            Some b \<Rightarrow>
                              filter (\<lambda>c. if b
                                          then schema c \<noteq> None \<and> schema c \<noteq> Some ''pending''
                                          else schema c = None \<or> schema c = Some ''pending'')
                                results
                          | None \<Rightarrow> results);
               results = (case f_hasDocumentation f of
                            Some b \<Rightarrow>
                              filter (\<lambda>c. if b
                                          then documentation c \<noteq> None
                                                 \<and> documentation c \<noteq> Some ''pending''
                                          else documentation c = None
                                                 \<or> documentation c = Some ''pending'')
                                results
                          | None \<Rightarrow> results);
               results = (case f_hasTesting f of
                            Some b \<Rightarrow> filter (\<lambda>c. hasTesting c = b) results
                          | None \<Rightarrow> results)
           in results))"

definition searchComponents :: "AgentAPI \<Rightarrow> string \<Rightarrow> ComponentMetadata list" where
  "searchComponents api query =
     (let lowerQuery = toLowerCase query
      in filter (\<lambda>c. str_includes (toLowerCase (name c)) lowerQuery
                    \<or> str_includes (toLowerCase (description c)) lowerQuery
                    \<or> (\<exists>tag \<in> set (tags c). str_includes (toLowerCase tag) lowerQuery))
           (components api))"

section \<open>ComponentRegistryIndex\<close>

record ComponentRegistryIndex =
  nameIndex :: "string \<rightharpoonup> ComponentMetadata"
  categoryIndex :: "category \<rightharpoonup> ComponentMetadata list"
  tagIndex :: "string \<rightharpoonup> ComponentMetadata list"

text \<open>
  One entry of the category or tag index: create the key with an empty list when it is
  missing, then push the component onto the key's list.
\<close>

definition push_entry :: "('k \<rightharpoonup> 'v list) \<Rightarrow> 'k \<Rightarrow> 'v \<Rightarrow> ('k \<rightharpoonup> 'v list)" where
  "push_entry m k v =
     (let m0 = (if m k = None then m(k \<mapsto> []) else m)
      in case m0 k of Some l \<Rightarrow> m0(k \<mapsto> l @ [v]) | None \<Rightarrow> m0)"

definition index_component :: "ComponentMetadata \<Rightarrow> ComponentRegistryIndex \<Rightarrow> ComponentRegistryIndex" where
  "index_component component idx =
     \<lparr> nameIndex = (nameIndex idx)(toLowerCase (name component) \<mapsto> component),
       categoryIndex = push_entry (categoryIndex idx) (category component) component,
       tagIndex = fold (\<lambda>tag ti. push_entry ti tag component) (tags component) (tagIndex idx) \<rparr>"

definition buildIndices :: "ComponentMetadata list \<Rightarrow> ComponentRegistryIndex \<Rightarrow> ComponentRegistryIndex" where
  "buildIndices registry idx = fold index_component registry idx"

definition ComponentRegistryIndex_constructor :: "ComponentMetadata list \<Rightarrow> ComponentRegistryIndex" where
  "ComponentRegistryIndex_constructor registry =
     buildIndices registry \<lparr> nameIndex = Map.empty, categoryIndex = Map.empty, tagIndex = Map.empty \<rparr>"

definition findByName :: "ComponentRegistryIndex \<Rightarrow> string \<Rightarrow> ComponentMetadata option" where
  "findByName idx nm = nameIndex idx (toLowerCase nm)"

definition findByCategory :: "ComponentRegistryIndex \<Rightarrow> category \<Rightarrow> ComponentMetadata list" where
  "findByCategory idx cat = (case categoryIndex idx cat of Some l \<Rightarrow> l | None \<Rightarrow> [])"

definition findByTag :: "ComponentRegistryIndex \<Rightarrow> string \<Rightarrow> ComponentMetadata list" where
  "findByTag idx tag = (case tagIndex idx tag of Some l \<Rightarrow> l | None \<Rightarrow> [])"

section \<open>Values supplied by callers\<close>

text \<open>
  A property value is any JavaScript value. The validators only ask for its \<open>typeof\<close>
  and compare it with the members of an enumeration (\<open>Array.includes\<close>: primitives by
  value, objects by identity), so a number is represented by an integer and an object,
  array or function by its reference.
\<close>

datatype jsvalue =
    JUndefined
  | JNull
  | JBool bool
  | JNum int
  | JStr string
  | JRef nat

fun typeof :: "jsvalue \<Rightarrow> string" where
  "typeof JUndefined = ''undefined''"
| "typeof JNull = ''object''"
| "typeof (JBool b) = ''boolean''"
| "typeof (JNum n) = ''number''"
| "typeof (JStr s) = ''string''"
| "typeof (JRef r) = ''object''"

definition dq :: string where
  "dq = [CHR 0x22]"

section \<open>Property validation\<close>

text \<open>
  A schema document as the validator reads it: an optional \<open>props\<close> section that maps a
  property name to its definition, of which \<open>type\<close>, \<open>values\<close> and \<open>required\<close> are
  read. Objects are association lists of their own keys, in key order.

  The schema and the supplied properties are plain objects, so a property access
  \<open>obj[key]\<close> and the test \<open>key in obj\<close> also find the members every plain object
  inherits from \<open>Object.prototype\<close>. \<open>Object_prototype_keys\<close> lists their names: the
  members of the language standard and the legacy accessors of its annex for web
  browsers, which the JavaScript engines provide. An inherited member is a function (for
  \<open>__proto__\<close>, the prototype object): it is truthy and has no \<open>type\<close>, \<open>values\<close> or
  \<open>required\<close> member.
\<close>

definition Object_prototype_keys :: "string list" where
  "Object_prototype_keys =
     [''constructor'', ''__defineGetter__'', ''__defineSetter__'', ''hasOwnProperty'',
      ''__lookupGetter__'', ''__lookupSetter__'', ''isPrototypeOf'', ''propertyIsEnumerable'',
      ''toString'', ''valueOf'', ''__proto__'', ''toLocaleString'']"

datatype 'a property = OwnProperty 'a | InheritedProperty | NoProperty

text \<open>\<open>obj[key]\<close>: the object's own member first, then the inherited one.\<close>

definition get_property :: "(string \<times> 'a) list \<Rightarrow> string \<Rightarrow> 'a property" where
  "get_property obj key =
     (case map_of obj key of
        Some v \<Rightarrow> OwnProperty v
      | None \<Rightarrow> if key \<in> set Object_prototype_keys then InheritedProperty else NoProperty)"

text \<open>\<open>key in obj\<close>.\<close>

definition has_property :: "(string \<times> 'a) list \<Rightarrow> string \<Rightarrow> bool" where
  "has_property obj key = (key \<in> fst ` set obj \<or> key \<in> set Object_prototype_keys)"

record PropDef =
  p_type :: "string option"
  p_values :: "jsvalue list option"
  p_required :: bool

record Schema =
  s_componentName :: "string option"
  s_props :: "(string \<times> PropDef) list option"

record PropValidationError =
  pv_prop :: string
  pv_value :: jsvalue
  pv_error :: string
  pv_expected :: "jsvalue list option"

record PropValidationResult =
  pv_valid :: bool
  pv_errors :: "PropValidationError list"
  pv_warnings :: "PropValidationError list"

text \<open>
  The body of the first loop for one supplied property: the pair of the errors and the
  warnings it pushes. When \<open>schemaPropDefinitions[propName]\<close> is an inherited member,
  \<open>propDef\<close> is truthy, so no warning is pushed, and none of the four checks on
  \<open>propDef.type\<close> holds, so no error is pushed either.
\<close>

definition check_prop ::
    "(string \<times> PropDef) list \<Rightarrow> string \<times> jsvalue
       \<Rightarrow> PropValidationError list \<times> PropValidationError list" where
  "check_prop schemaPropDefinitions entry =
     (let propName = fst entry; propValue = snd entry
      in case get_property schemaPropDefinitions propName of
           NoProperty \<Rightarrow>
             ([], [\<lparr> pv_prop = propName, pv_value = propValue,
                     pv_error = ''Prop not defined in schema (may be a valid HTML attribute)'',
                     pv_expected = None \<rparr>])
         | InheritedProperty \<Rightarrow> ([], [])
         | OwnProperty propDef \<Rightarrow>
             ((case p_values propDef of
                 Some vals \<Rightarrow>
                   if p_type propDef = Some ''enum'' \<and> propValue \<notin> set vals
                   then [\<lparr> pv_prop = propName, pv_value = propValue,
                           pv_error = ''Invalid value for prop '' @ dq @ propName @ dq,
                           pv_expected = Some vals \<rparr>]
                   else []
               | None \<Rightarrow> [])
              @ (if p_type propDef = Some ''boolean'' \<and> typeof propValue \<noteq> ''boolean''
                 then [\<lparr> pv_prop = propName, pv_value = propValue,
                         pv_error = ''Prop '' @ dq @ propName @ dq @ '' must be a boolean'',
                         pv_expected = Some [JStr ''true'', JStr ''false''] \<rparr>]
                 else [])
              @ (if p_type propDef = Some ''number'' \<and> typeof propValue \<noteq> ''number''
                 then [\<lparr> pv_prop = propName, pv_value = propValue,
                         pv_error = ''Prop '' @ dq @ propName @ dq @ '' must be a number'',
                         pv_expected = None \<rparr>]
                 else [])
              @ (if p_type propDef = Some ''string'' \<and> typeof propValue \<noteq> ''string''
                 then [\<lparr> pv_prop = propName, pv_value = propValue,
                         pv_error = ''Prop '' @ dq @ propName @ dq @ '' must be a string'',
                         pv_expected = None \<rparr>]
                 else []),
              []))"

text \<open>The body of the second loop for one declared property.\<close>

definition check_required ::
    "(string \<times> jsvalue) list \<Rightarrow> string \<times> PropDef \<Rightarrow> PropValidationError list" where
  "check_required props entry =
     (let propName = fst entry; propDef = snd entry
      in if p_required propDef \<and> \<not> has_property props propName
         then [\<lparr> pv_prop = propName, pv_value = JUndefined,
                 pv_error = ''Required prop '' @ dq @ propName @ dq @ '' is missing'',
                 pv_expected = None \<rparr>]
         else [])"

definition validatePropsAgainstSchema ::
    "Schema option \<Rightarrow> (string \<times> jsvalue) list \<Rightarrow> PropValidationResult" where
  "validatePropsAgainstSchema sch props =
     (case (case sch of None \<Rightarrow> None | Some s \<Rightarrow> s_props s) of
        None \<Rightarrow> \<lparr> pv_valid = True, pv_errors = [], pv_warnings = [] \<rparr>
      | Some schemaPropDefinitions \<Rightarrow>
          (let (errors, warnings) =
                 fold (\<lambda>entry (es, ws).
                          (es @ fst (check_prop schemaPropDefinitions entry),
                           ws @ snd (check_prop schemaPropDefinitions entry)))
                   props ([], []);
               errors = fold (\<lambda>entry es. es @ check_required props entry)
                          schemaPropDefinitions errors
           in \<lparr> pv_valid = (length errors = 0), pv_errors = errors, pv_warnings = warnings \<rparr>))"

text \<open>
  The props section of the \<open>Button\<close> schema as the requirements document of the tool
  server shows it.
\<close>

definition Button_schema :: Schema where
  "Button_schema =
     \<lparr> s_componentName = Some ''Button'',
       s_props = Some
         [(''variant'', \<lparr> p_type = Some ''enum'',
                          p_values = Some [JStr ''default'', JStr ''destructive'', JStr ''outline'',
                                           JStr ''secondary'', JStr ''ghost'', JStr ''link''],
                          p_required = False \<rparr>),
          (''size'', \<lparr> p_type = Some ''enum'',
                       p_values = Some [JStr ''default'', JStr ''sm'', JStr ''lg'', JStr ''icon''],
                       p_required = False \<rparr>),
          (''disabled'', \<lparr> p_type = Some ''boolean'', p_values = None, p_required = False \<rparr>),
          (''children'', \<lparr> p_type = Some ''ReactNode'', p_values = None, p_required = True \<rparr>)] \<rparr>"

subsection \<open>The method of AgentAPI\<close>

record ValidationError =
  field :: string
  ve_value :: jsvalue
  ve_error :: string

record ValidationResult =
  valid :: bool
  errors :: "ValidationError list"

text \<open>
  \<open>validateProps\<close> returns its own result object, or hands back the object of
  \<open>validatePropsAgainstSchema\<close> in the branch of the \<open>Button\<close> component, or throws.

  The method calls \<open>require\<close> twice, and what \<open>require\<close> does is given by the module
  system the code runs in, so both outcomes are parameters. \<open>requireValidators\<close> is the
  outcome of \<open>require('./validators')\<close>, which stands before the \<open>try\<close> block: \<open>None\<close>
  when the module loads, and the exception when the call throws, a \<open>ReferenceError\<close>
  where \<open>require\<close> is not defined, as in an ES module or in the browser bundle; the
  method then throws it. \<open>buttonSchema\<close> is the content of the schema file that the
  \<open>Button\<close> branch requires inside the \<open>try\<close> block, \<open>None\<close> when requiring it throws (the
  \<open>catch\<close> then falls through to the final return).
\<close>

datatype js_exception = ReferenceError | ModuleNotFound

datatype validateProps_result =
    Own ValidationResult
  | FromSchema PropValidationResult

definition validateProps ::
    "js_exception option \<Rightarrow> Schema option \<Rightarrow> AgentAPI \<Rightarrow> string
       \<Rightarrow> (string \<times> jsvalue) list \<Rightarrow> js_exception + validateProps_result" where
  "validateProps requireValidators buttonSchema api componentName props =
     (case getComponent api componentName of
        None \<Rightarrow>
          Inr (Own \<lparr> valid = False,
                     errors = [\<lparr> field = ''component'', ve_value = JStr componentName,
                                 ve_error = ''Component not found in registry'' \<rparr>] \<rparr>)
      | Some component \<Rightarrow>
          if \<not> truthy (schema component) \<or> schema component = Some ''pending''
          then Inr (Own \<lparr> valid = True, errors = [] \<rparr>)
          else (case requireValidators of
                  Some exception \<Rightarrow> Inl exception
                | None \<Rightarrow>
                    if name component = ''Button'' \<and> buttonSchema \<noteq> None
                    then Inr (FromSchema (validatePropsAgainstSchema buttonSchema props))
                    else Inr (Own \<lparr> valid = True, errors = [] \<rparr>)))"

subsection \<open>Health\<close>

datatype health_status = StatusHealthy | StatusWarning | StatusError

record ComponentHealth =
  h_name :: string
  h_status :: health_status
  h_hasTests :: bool
  h_hasStorybook :: bool
  h_hasSchema :: bool
  h_hasDocumentation :: bool
  h_importCount :: nat
  h_lastUpdated :: string
  h_coverage :: nat
  h_issues :: "string list"
  h_migrationStatus :: migration

definition getComponentHealth :: "AgentAPI \<Rightarrow> string \<Rightarrow> ComponentHealth option" where
  "getComponentHealth api componentName =
     (case getComponent api componentName of
        None \<Rightarrow> None
      | Some component \<Rightarrow>
          (let issues =
                 (if \<not> truthy (schema component) \<or> schema component = Some ''pending''
                  then [''Missing component schema''] else [])
                 @ (if \<not> truthy (documentation component)
                         \<or> documentation component = Some ''pending''
                    then [''Missing documentation''] else [])
                 @ (if \<not> hasTesting component then [''No unit tests''] else [])
                 @ (if \<not> hasStorybook component then [''No Storybook stories''] else []);
               migrationStatus' =
                 (case migrationStatus component of Some ms \<Rightarrow> ms | None \<Rightarrow> Pending);
               status = (if length issues > 3 then StatusError
                         else if length issues > 0 then StatusWarning
                         else StatusHealthy)
           in Some \<lparr> h_name = name component,
                     h_status = status,
                     h_hasTests = hasTesting component,
                     h_hasStorybook = hasStorybook component,
                     h_hasSchema = (truthy (schema component)
                                      \<and> schema component \<noteq> Some ''pending''),
                     h_hasDocumentation = (truthy (documentation component)
                                             \<and> documentation component \<noteq> Some ''pending''),
                     h_importCount = 0,
                     h_lastUpdated = lastUpdated component,
                     h_coverage = 0,
                     h_issues = issues,
                     h_migrationStatus = migrationStatus' \<rparr>))"

section \<open>Formatters of the tool server\<close>

record ComponentSummary =
  cs_name :: string
  cs_category :: category
  cs_description :: string
  cs_tags :: "string list"
  cs_complexity :: complexity
  cs_hasSchema :: bool
  cs_hasDocumentation :: bool
  cs_path :: string
  cs_wcagLevel :: wcag

definition formatComponentSummary :: "ComponentMetadata \<Rightarrow> ComponentSummary" where
  "formatComponentSummary component =
     \<lparr> cs_name = name component,
       cs_category = category component,
       cs_description = description component,
       cs_tags = tags component,
       cs_complexity = complexity component,
       cs_hasSchema = truthy (schema component),
       cs_hasDocumentation = truthy (documentation component),
       cs_path = path component,
       cs_wcagLevel = wcagLevel component \<rparr>"

record ComponentDetail =
  cd_name :: string
  cd_category :: category
  cd_path :: string
  cd_description :: string
  cd_tags :: "string list"
  cd_complexity :: complexity
  cd_version :: string
  cd_lastUpdated :: string
  cd_wcagLevel :: wcag
  cd_dependencies_internal :: "string list"
  cd_dependencies_external :: "string list"
  cd_dependencies_components :: "string list"
  cd_schema :: "string option"
  cd_documentation :: "string option"
  cd_hasTesting :: bool
  cd_hasStorybook :: bool
  cd_migrationStatus :: migration

definition formatComponentDetail :: "ComponentMetadata \<Rightarrow> ComponentDetail" where
  "formatComponentDetail component =
     \<lparr> cd_name = name component,
       cd_category = category component,
       cd_path = path component,
       cd_description = description component,
       cd_tags = tags component,
       cd_complexity = complexity component,
       cd_version = version component,
       cd_lastUpdated = lastUpdated component,
       cd_wcagLevel = wcagLevel component,
       cd_dependencies_internal = internalDependencies component,
       cd_dependencies_external = externalDependencies component,
       cd_dependencies_components = componentDependencies component,
       cd_schema = (if truthy (schema component) then schema component else None),
       cd_documentation =
         (if truthy (documentation component) then documentation component else None),
       cd_hasTesting = hasTesting component,
       cd_hasStorybook = hasStorybook component,
       cd_migrationStatus =
         (case migrationStatus component of Some ms \<Rightarrow> ms | None \<Rightarrow> Pending) \<rparr>"

datatype relevance = RelName | RelDescription | RelTag

record SearchResult =
  sr_name :: string
  sr_description :: string
  sr_relevance :: relevance
  sr_category :: category

definition formatSearchResult :: "ComponentMetadata \<Rightarrow> string \<Rightarrow> SearchResult" where
  "formatSearchResult component query =
     (let lowerQuery = toLowerCase query;
          relevance =
            (if str_includes (toLowerCase (name component)) lowerQuery then RelName
             else if \<exists>tag \<in> set (tags component). str_includes (toLowerCase tag) lowerQuery
             then RelTag
             else RelDescription)
      in \<lparr> sr_name = name component,
           sr_description = description component,
           sr_relevance = relevance,
           sr_category = category component \<rparr>)"

section \<open>Discovery tools\<close>

text \<open>
  \<open>limit || d\<close> on an optional number, and \<open>xs.slice(0, n)\<close>; a negative end counts
  from the end of the list.
\<close>

definition or_default :: "int option \<Rightarrow> int \<Rightarrow> int" where
  "or_default limit d = (case limit of None \<Rightarrow> d | Some n \<Rightarrow> if n = 0 then d else n)"

definition slice0 :: "'a list \<Rightarrow> int \<Rightarrow> 'a list" where
  "slice0 xs n = (if n < 0 then take (length xs - nat (- n)) xs else take (nat n) xs)"

record SearchComponentsInput =
  si_query :: string
  si_limit :: "int option"

text \<open>
  The input schema of the search tool, \<open>query: z.string().min(1)\<close>: the check the
  tool server applies to a call's arguments before it runs the handler.
\<close>

definition searchComponentsSchema :: "SearchComponentsInput \<Rightarrow> bool" where
  "searchComponentsSchema input = (1 \<le> length (si_query input))"

record SearchComponentsOutput =
  so_query :: string
  so_count :: nat
  so_results :: "SearchResult list"

definition tool_searchComponents :: "AgentAPI \<Rightarrow> SearchComponentsInput \<Rightarrow> SearchComponentsOutput" where
  "tool_searchComponents api input =
     (let components' = searchComponents api (si_query input);
          limited = slice0 components' (or_default (si_limit input) 10)
      in \<lparr> so_query = si_query input,
           so_count = length limited,
           so_results = map (\<lambda>c. formatSearchResult c (si_query input)) limited \<rparr>)"

record DiscoverComponentsInput =
  di_category :: "category option"
  di_tags :: "string list option"
  di_complexity :: "complexity option"
  di_hasSchema :: "bool option"
  di_hasDocumentation :: "bool option"
  di_limit :: "int option"

record DiscoverComponentsOutput =
  do_count :: nat
  do_totalMatches :: nat
  do_components :: "ComponentSummary list"

definition tool_discoverComponents ::
    "AgentAPI \<Rightarrow> DiscoverComponentsInput \<Rightarrow> DiscoverComponentsOutput" where
  "tool_discoverComponents api input =
     (let filters = \<lparr> f_category = di_category input,
                      f_tags = di_tags input,
                      f_complexity = di_complexity input,
                      f_migrationStatus = None,
                      f_hasSchema = di_hasSchema input,
                      f_hasDocumentation = di_hasDocumentation input,
                      f_hasTesting = None \<rparr>;
          components' = discoverComponents api (Some filters);
          limited = slice0 components' (or_default (di_limit input) 20)
      in \<lparr> do_count = length limited,
           do_totalMatches = length components',
           do_components = map formatComponentSummary limited \<rparr>)"

subsection \<open>Lookup with suggestions\<close>

text \<open>
  An array assignment \<open>xs[i] = v\<close>: inside the array it replaces the element, at its end
  it appends. Further out the source would leave holes; no value is given to them here.
\<close>

definition js_assign :: "'a list \<Rightarrow> nat \<Rightarrow> 'a \<Rightarrow> 'a list" where
  "js_assign xs i v =
     (if i < length xs then xs[i := v] else xs @ replicate (i - length xs) undefined @ [v])"

definition set_cell :: "nat list list \<Rightarrow> nat \<Rightarrow> nat \<Rightarrow> nat \<Rightarrow> nat list list" where
  "set_cell matrix i j v = matrix[i := js_assign (matrix ! i) j v]"

text \<open>
  \<open>levenshteinDistance\<close>: the three loops of the source over one matrix, rows indexed by
  the positions of \<open>b\<close> and columns by those of \<open>a\<close>.
\<close>

definition lev_cell :: "string \<Rightarrow> string \<Rightarrow> nat \<Rightarrow> nat \<Rightarrow> nat list list \<Rightarrow> nat list list" where
  "lev_cell a b i j matrix =
     (if b ! (i - 1) = a ! (j - 1)
      then set_cell matrix i j (matrix ! (i - 1) ! (j - 1))
      else set_cell matrix i j
             (min (min (matrix ! (i - 1) ! (j - 1) + 1) (matrix ! i ! (j - 1) + 1))
                  (matrix ! (i - 1) ! j + 1)))"

definition levenshteinDistance :: "string \<Rightarrow> string \<Rightarrow> nat" where
  "levenshteinDistance a b =
     (let matrix = fold (\<lambda>i m. js_assign m i [i]) [0..<Suc (length b)] [];
          matrix = fold (\<lambda>j m. set_cell m 0 j j) [0..<Suc (length a)] matrix;
          matrix = fold (\<lambda>i m. fold (\<lambda>j m'. lev_cell a b i j m') [1..<Suc (length a)] m)
                     [1..<Suc (length b)] matrix
      in matrix ! length b ! length a)"

definition getSuggestions :: "AgentAPI \<Rightarrow> string \<Rightarrow> string list" where
  "getSuggestions api nm =
     (let all = getAllComponents api;
          lowerName = toLowerCase nm
      in map name
           (slice0
              (filter (\<lambda>c. let cName = toLowerCase (name c)
                           in str_includes cName lowerName
                              \<or> str_includes lowerName cName
                              \<or> levenshteinDistance cName lowerName \<le> 3)
                 all)
              5))"

record ComponentNotFound =
  nf_error :: string
  nf_message :: string
  nf_suggestions :: "string list"

definition tool_getComponent :: "AgentAPI \<Rightarrow> string \<Rightarrow> ComponentNotFound + ComponentDetail" where
  "tool_getComponent api input_name =
     (case getComponent api input_name of
        None \<Rightarrow>
          Inl \<lparr> nf_error = ''COMPONENT_NOT_FOUND'',
                nf_message = ''Component '' @ dq @ input_name @ dq @ '' not found in registry'',
                nf_suggestions = getSuggestions api input_name \<rparr>
      | Some component \<Rightarrow> Inr (formatComponentDetail component))"

text \<open>
  The edit distance of Levenshtein by its defining recurrence on the lengths \<open>i\<close> and
  \<open>j\<close> of the prefixes of two words: a deletion, an insertion, or a substitution that
  costs nothing when the two last characters agree.
\<close>

fun lev_prefix :: "'a list \<Rightarrow> 'a list \<Rightarrow> nat \<Rightarrow> nat \<Rightarrow> nat" where
  "lev_prefix x y 0 j = j"
| "lev_prefix x y (Suc i) 0 = Suc i"
| "lev_prefix x y (Suc i) (Suc j) =
     min (min (lev_prefix x y i (Suc j) + 1) (lev_prefix x y (Suc i) j + 1))
         (lev_prefix x y i j + (if x ! i = y ! j then 0 else 1))"

definition levenshtein :: "'a list \<Rightarrow> 'a list \<Rightarrow> nat" where
  "levenshtein x y = lev_prefix x y (length x) (length y)"

text \<open>
  The content of the matrix while the loops of \<open>levenshteinDistance\<close> run, used to
  state their invariant. \<open>lev_table a b i j\<close> is the value the loops store in cell
  \<open>(i, j)\<close>. \<open>lev_matrix a b i k\<close> is the matrix when row \<open>i\<close> is filled up to column
  \<open>k\<close>: the rows before \<open>i\<close> are complete and the rows after it hold their first cell.
\<close>

fun lev_table :: "string \<Rightarrow> string \<Rightarrow> nat \<Rightarrow> nat \<Rightarrow> nat" where
  "lev_table a b 0 j = j"
| "lev_table a b (Suc i) 0 = Suc i"
| "lev_table a b (Suc i) (Suc j) =
     (if b ! i = a ! j then lev_table a b i j
      else min (min (lev_table a b i j + 1) (lev_table a b (Suc i) j + 1))
               (lev_table a b i (Suc j) + 1))"

definition lev_row :: "string \<Rightarrow> string \<Rightarrow> nat \<Rightarrow> nat \<Rightarrow> nat \<Rightarrow> nat list" where
  "lev_row a b i k i' =
     (if i' < i then map (lev_table a b i') [0..<Suc (length a)]
      else if i' = i then map (lev_table a b i) [0..<Suc k]
      else [i'])"

definition lev_matrix :: "string \<Rightarrow> string \<Rightarrow> nat \<Rightarrow> nat \<Rightarrow> nat list list" where
  "lev_matrix a b i k = map (lev_row a b i k) [0..<Suc (length b)]"

section \<open>Design tokens\<close>

definition isDigit :: "char \<Rightarrow> bool" where
  "isDigit c = (let n = (of_char c :: nat) in 48 \<le> n \<and> n \<le> 57)"

definition isWordChar :: "char \<Rightarrow> bool" where
  "isWordChar c =
     (let n = (of_char c :: nat)
      in (48 \<le> n \<and> n \<le> 57) \<or> (65 \<le> n \<and> n \<le> 90) \<or> n = 95 \<or> (97 \<le> n \<and> n \<le> 122))"

text \<open>
  The colour pattern \<open>(bg|text|border)-(\w+-\d+)\<close> tried at the start of a string.
  \<open>color_rest\<close> is the part after the alternative and gives group 2. \<open>\w+\<close> takes the
  whole run of word characters: the hyphen that must follow is not a word character, so
  no shorter run can be followed by it. \<open>\d+\<close> ends the pattern and takes the whole run
  of digits.
\<close>

definition color_rest :: "string \<Rightarrow> string option" where
  "color_rest s =
     (case s of
        [] \<Rightarrow> None
      | c # r \<Rightarrow>
          if c \<noteq> CHR ''-'' then None
          else (let w = takeWhile isWordChar r; r2 = dropWhile isWordChar r
                in if w = [] then None
                   else (case r2 of
                           [] \<Rightarrow> None
                         | c2 # r3 \<Rightarrow>
                             if c2 \<noteq> CHR ''-'' then None
                             else (let d = takeWhile isDigit r3
                                   in if d = [] then None else Some (w @ ''-'' @ d)))))"

fun color_alternatives :: "string list \<Rightarrow> string \<Rightarrow> (string \<times> string) option" where
  "color_alternatives [] s = None"
| "color_alternatives (p # ps) s =
     (if startsWith s p
      then (case color_rest (drop (length p) s) of
              Some g2 \<Rightarrow> Some (p @ ''-'' @ g2, g2)
            | None \<Rightarrow> color_alternatives ps s)
      else color_alternatives ps s)"

text \<open>The match at the start of \<open>s\<close>, if any: the pair of \<open>match[0]\<close> and \<open>match[2]\<close>.\<close>

definition colorRegex_at :: "string \<Rightarrow> (string \<times> string) option" where
  "colorRegex_at s = color_alternatives [''bg'', ''text'', ''border''] s"

text \<open>
  The \<open>while\<close> loop over \<open>colorRegex.exec\<close> with the global flag: each call finds the
  leftmost match at or after \<open>lastIndex\<close> and moves \<open>lastIndex\<close> behind it. The argument
  is the text from \<open>lastIndex\<close> on; the result lists the matches in order.
\<close>

fun colorRegex_exec_all :: "string \<Rightarrow> (string \<times> string) list" where
  "colorRegex_exec_all [] = []"
| "colorRegex_exec_all (c # cs) =
     (case colorRegex_at (c # cs) of
        Some m \<Rightarrow> m # colorRegex_exec_all (drop (length (fst m) - 1) cs)
      | None \<Rightarrow> colorRegex_exec_all cs)"

text \<open>
  The arbitrary-value pattern \<open>\[([^\]]+)\]\<close> at the start of a string: an opening
  bracket, the whole non-empty run of characters other than the closing bracket, and the
  closing bracket.
\<close>

definition arbitraryRegex_at :: "string \<Rightarrow> string option" where
  "arbitraryRegex_at s =
     (case s of
        [] \<Rightarrow> None
      | c # r \<Rightarrow>
          if c \<noteq> CHR ''['' then None
          else (let body = takeWhile (\<lambda>x. x \<noteq> CHR '']'') r;
                    r2 = dropWhile (\<lambda>x. x \<noteq> CHR '']'') r
                in if body = [] \<or> r2 = [] then None else Some (''['' @ body @ '']'')))"

fun arbitraryRegex_exec_all :: "string \<Rightarrow> string list" where
  "arbitraryRegex_exec_all [] = []"
| "arbitraryRegex_exec_all (c # cs) =
     (case arbitraryRegex_at (c # cs) of
        Some m \<Rightarrow> m # arbitraryRegex_exec_all (drop (length m - 1) cs)
      | None \<Rightarrow> arbitraryRegex_exec_all cs)"

record DesignTokenResult =
  dt_valid :: bool
  dt_hardCodedValues :: "string list"
  dt_warnings :: "string list"

definition validateDesignTokens :: "string \<Rightarrow> DesignTokenResult" where
  "validateDesignTokens className =
     (let colors = filter (\<lambda>m. snd m \<noteq> ''inherit'' \<and> snd m \<noteq> ''current''
                                \<and> snd m \<noteq> ''transparent'')
                     (colorRegex_exec_all className);
          arbitrary = arbitraryRegex_exec_all className;
          hardCodedValues = map fst colors @ arbitrary;
          warnings =
            map (\<lambda>m. ''Hard-coded color found: '' @ dq @ fst m @ dq
                      @ ''. Use semantic tokens instead.'') colors
            @ map (\<lambda>m. ''Arbitrary value found: '' @ dq @ m @ dq
                        @ ''. Use design tokens instead.'') arbitrary
      in \<lparr> dt_valid = (length hardCodedValues = 0),
           dt_hardCodedValues = hardCodedValues,
           dt_warnings = warnings \<rparr>)"

section \<open>The name index\<close>

lemma fold_upd_lookup:
  "fold (\<lambda>c m. m(k c \<mapsto> c)) xs m0 key =
     (case find (\<lambda>c. k c = key) (rev xs) of None \<Rightarrow> m0 key | Some c \<Rightarrow> Some c)"
  by (induction xs rule: rev_induct) auto

lemma find_rev_last_filter:
  "find P (rev xs) = (case filter P xs of [] \<Rightarrow> None | m # ms \<Rightarrow> Some (last (m # ms)))"
  by (induction xs rule: rev_induct) (auto split: list.splits)

lemma find_distinct_key:
  "distinct (map k xs) \<Longrightarrow> R \<in> set xs \<Longrightarrow> find (\<lambda>c. k c = k R) xs = Some R"
  by (induction xs) (auto simp: image_iff)

lemma nameIndex_fold:
  "nameIndex (fold index_component registry idx) =
     fold (\<lambda>c m. m(toLowerCase (name c) \<mapsto> c)) registry (nameIndex idx)"
  by (induction registry arbitrary: idx) (simp_all add: index_component_def)

lemma push_entry_lookup:
  "(case push_entry m k v k' of None \<Rightarrow> [] | Some l \<Rightarrow> l) =
     (case m k' of None \<Rightarrow> [] | Some l \<Rightarrow> l) @ (if k' = k then [v] else [])"
  by (auto simp: push_entry_def Let_def split: option.splits)

lemma categoryIndex_fold:
  "(case categoryIndex (fold index_component registry idx) cat of None \<Rightarrow> [] | Some l \<Rightarrow> l) =
     (case categoryIndex idx cat of None \<Rightarrow> [] | Some l \<Rightarrow> l)
     @ filter (\<lambda>c. category c = cat) registry"
proof (induction registry arbitrary: idx)
  case Nil
  then show ?case by simp
next
  case (Cons c registry)
  have "(case categoryIndex (index_component c idx) cat of None \<Rightarrow> [] | Some l \<Rightarrow> l) =
          (case categoryIndex idx cat of None \<Rightarrow> [] | Some l \<Rightarrow> l)
          @ (if cat = category c then [c] else [])"
    by (simp add: index_component_def push_entry_lookup)
  then show ?case
    using Cons[of "index_component c idx"] by auto
qed

lemma push_tags_lookup:
  "(case fold (\<lambda>tag ti. push_entry ti tag c) ts ti tag' of None \<Rightarrow> [] | Some l \<Rightarrow> l) =
     (case ti tag' of None \<Rightarrow> [] | Some l \<Rightarrow> l) @ replicate (count_list ts tag') c"
proof (induction ts arbitrary: ti)
  case Nil
  then show ?case by simp
next
  case (Cons t ts)
  show ?case
    using Cons[of "push_entry ti t c"]
    by (simp add: push_entry_lookup replicate_app_Cons_same)
qed

lemma tagIndex_fold:
  "(case tagIndex (fold index_component registry idx) tag of None \<Rightarrow> [] | Some l \<Rightarrow> l) =
     (case tagIndex idx tag of None \<Rightarrow> [] | Some l \<Rightarrow> l)
     @ concat (map (\<lambda>c. replicate (count_list (tags c) tag) c) registry)"
proof (induction registry arbitrary: idx)
  case Nil
  then show ?case by simp
next
  case (Cons c registry)
  have "(case tagIndex (index_component c idx) tag of None \<Rightarrow> [] | Some l \<Rightarrow> l) =
          (case tagIndex idx tag of None \<Rightarrow> [] | Some l \<Rightarrow> l)
          @ replicate (count_list (tags c) tag) c"
    by (simp add: index_component_def push_tags_lookup)
  then show ?case
    using Cons[of "index_component c idx"] by simp
qed

lemma findByCategory_all:
  "findByCategory (ComponentRegistryIndex_constructor registry) cat
     = filter (\<lambda>c. category c = cat) registry"
  using categoryIndex_fold[of registry
          "\<lparr> nameIndex = Map.empty, categoryIndex = Map.empty, tagIndex = Map.empty \<rparr>" cat]
  by (simp add: findByCategory_def ComponentRegistryIndex_constructor_def buildIndices_def)

lemma findByTag_all:
  "findByTag (ComponentRegistryIndex_constructor registry) tag
     = concat (map (\<lambda>c. replicate (count_list (tags c) tag) c) registry)"
  using tagIndex_fold[of registry
          "\<lparr> nameIndex = Map.empty, categoryIndex = Map.empty, tagIndex = Map.empty \<rparr>" tag]
  by (simp add: findByTag_def ComponentRegistryIndex_constructor_def buildIndices_def)

text \<open>
  Claim C1 says that building the lookup structures from a record list with two names
  that are equal case-insensitively fails, and that a later record never replaces an
  earlier one of the same name. Neither constructor has a failing path. With the
  registry's \<open>Button\<close> followed by a second record named \<open>button\<close>, both lookup
  structures are built, the lookup of \<open>Button\<close> answers with the second record, and the
  tag index still lists both records.
\<close>

theorem duplicate_name_overwritten:
  "toLowerCase (name Button_metadata) = toLowerCase ''button''
   \<and> Button_metadata \<noteq> Button_metadata\<lparr>name := ''button'', category := Molecule\<rparr>
   \<and> findByName (ComponentRegistryIndex_constructor
        [Button_metadata, Button_metadata\<lparr>name := ''button'', category := Molecule\<rparr>]) ''Button''
      = Some (Button_metadata\<lparr>name := ''button'', category := Molecule\<rparr>)
   \<and> getComponent (AgentAPI_constructor
        [Button_metadata, Button_metadata\<lparr>name := ''button'', category := Molecule\<rparr>]) ''Button''
      = Some (Button_metadata\<lparr>name := ''button'', category := Molecule\<rparr>)
   \<and> findByTag (ComponentRegistryIndex_constructor
        [Button_metadata, Button_metadata\<lparr>name := ''button'', category := Molecule\<rparr>]) ''form''
      = [Button_metadata, Button_metadata\<lparr>name := ''button'', category := Molecule\<rparr>]"
  by code_simp

text \<open>
  Claim C1, amended: building the lookup structures succeeds on every record list, with
  or without duplicate names, and a lookup by name then returns the last record of the
  list whose lowercased name is the lowercased argument (nothing when there is none).
  This holds for the name index of \<open>ComponentRegistryIndex\<close> and for the lookup map of
  \<open>AgentAPI\<close>. The category index lists, in the list's order, every record of the
  category, and the tag index every record once for each occurrence of the tag among its
  tags.
\<close>

theorem name_lookup_last_record_wins:
  "findByName (ComponentRegistryIndex_constructor registry) s =
     (case filter (\<lambda>c. toLowerCase (name c) = toLowerCase s) registry of
        [] \<Rightarrow> None | m # ms \<Rightarrow> Some (last (m # ms)))
   \<and> getComponent (AgentAPI_constructor registry) s =
     (case filter (\<lambda>c. toLowerCase (name c) = toLowerCase s) registry of
        [] \<Rightarrow> None | m # ms \<Rightarrow> Some (last (m # ms)))
   \<and> findByCategory (ComponentRegistryIndex_constructor registry) cat
       = filter (\<lambda>c. category c = cat) registry
   \<and> findByTag (ComponentRegistryIndex_constructor registry) tag
       = concat (map (\<lambda>c. replicate (count_list (tags c) tag) c) registry)"
  by (simp add: findByName_def ComponentRegistryIndex_constructor_def buildIndices_def
        nameIndex_fold getComponent_def AgentAPI_constructor_def fold_upd_lookup
        find_rev_last_filter findByCategory_all[unfolded ComponentRegistryIndex_constructor_def
          buildIndices_def] findByTag_all[unfolded ComponentRegistryIndex_constructor_def
          buildIndices_def] split: list.splits)

theorem name_lookup_last_record_wins_witness:
  "findByName (ComponentRegistryIndex_constructor
      [Button_metadata, Button_metadata\<lparr>name := ''Card''\<rparr>,
       Button_metadata\<lparr>name := ''BUTTON'', complexity := Complex\<rparr>]) ''button''
     = Some (Button_metadata\<lparr>name := ''BUTTON'', complexity := Complex\<rparr>)
   \<and> getComponent (AgentAPI_constructor
      [Button_metadata, Button_metadata\<lparr>name := ''Card''\<rparr>,
       Button_metadata\<lparr>name := ''BUTTON'', complexity := Complex\<rparr>]) ''button''
     = Some (Button_metadata\<lparr>name := ''BUTTON'', complexity := Complex\<rparr>)"
proof -
  have sel: "filter (\<lambda>c. toLowerCase (name c) = toLowerCase ''button'')
      [Button_metadata, Button_metadata\<lparr>name := ''Card''\<rparr>,
       Button_metadata\<lparr>name := ''BUTTON'', complexity := Complex\<rparr>]
     = [Button_metadata, Button_metadata\<lparr>name := ''BUTTON'', complexity := Complex\<rparr>]"
    by code_simp
  show ?thesis
    using name_lookup_last_record_wins
      [where registry = "[Button_metadata, Button_metadata\<lparr>name := ''Card''\<rparr>,
                          Button_metadata\<lparr>name := ''BUTTON'', complexity := Complex\<rparr>]"
         and s = "''button''"]
    unfolding sel by simp
qed

lemma lookup_unique:
  assumes "distinct (map (\<lambda>c. toLowerCase (name c)) registry)"
    and "R \<in> set registry"
    and "toLowerCase s = toLowerCase (name R)"
  shows "getComponent (AgentAPI_constructor registry) s = Some R"
proof -
  have d: "distinct (map (\<lambda>c. toLowerCase (name c)) (rev registry))"
    using assms(1) by (simp add: rev_map[symmetric])
  have "find (\<lambda>c. toLowerCase (name c) = toLowerCase (name R)) (rev registry) = Some R"
    using find_distinct_key[OF d, of R] assms(2) by simp
  then show ?thesis
    by (simp add: getComponent_def AgentAPI_constructor_def fold_upd_lookup assms(3))
qed

text \<open>
  Claim C2: when the names of the records are pairwise different after lowercasing, then
  for every record \<open>R\<close> of the store and every string \<open>s\<close> whose lowercasing is that of
  \<open>R\<close>'s name, \<open>getComponent s\<close> returns \<open>R\<close>.
\<close>

theorem getComponent_returns_record:
  assumes "distinct (map (\<lambda>c. toLowerCase (name c)) registry)"
    and "R \<in> set registry"
    and "toLowerCase s = toLowerCase (name R)"
  shows "getComponent (AgentAPI_constructor registry) s = Some R"
  using assms by (rule lookup_unique)

theorem getComponent_returns_record_witness:
  "distinct (map (\<lambda>c. toLowerCase (name c))
      [Button_metadata, Button_metadata\<lparr>name := ''Card'', category := Molecule\<rparr>])
   \<and> Button_metadata\<lparr>name := ''Card'', category := Molecule\<rparr>
       \<in> set [Button_metadata, Button_metadata\<lparr>name := ''Card'', category := Molecule\<rparr>]
   \<and> toLowerCase ''cARD'' = toLowerCase (name (Button_metadata\<lparr>name := ''Card'', category := Molecule\<rparr>))
   \<and> getComponent (AgentAPI_constructor
        [Button_metadata, Button_metadata\<lparr>name := ''Card'', category := Molecule\<rparr>]) ''cARD''
       = Some (Button_metadata\<lparr>name := ''Card'', category := Molecule\<rparr>)"
proof -
  have h1: "distinct (map (\<lambda>c. toLowerCase (name c))
      [Button_metadata, Button_metadata\<lparr>name := ''Card'', category := Molecule\<rparr>])"
    by code_simp
  have h2: "Button_metadata\<lparr>name := ''Card'', category := Molecule\<rparr>
       \<in> set [Button_metadata, Button_metadata\<lparr>name := ''Card'', category := Molecule\<rparr>]"
    by simp
  have h3: "toLowerCase ''cARD''
      = toLowerCase (name (Button_metadata\<lparr>name := ''Card'', category := Molecule\<rparr>))"
    by code_simp
  show ?thesis
    using h1 h2 h3 getComponent_returns_record[OF h1 h2 h3] by blast
qed

section \<open>Filtering\<close>

lemma opt_filter:
  "(case opt of None \<Rightarrow> xs | Some x \<Rightarrow> filter (P x) xs) =
     filter (\<lambda>c. case opt of None \<Rightarrow> True | Some x \<Rightarrow> P x c) xs"
  by (cases opt) simp_all

lemma opt_tags_filter:
  "(case opt of None \<Rightarrow> xs | Some ts \<Rightarrow> if 0 < length ts then filter (P ts) xs else xs) =
     filter (\<lambda>c. case opt of None \<Rightarrow> True | Some ts \<Rightarrow> ts = [] \<or> P ts c) xs"
  by (cases opt) simp_all

lemma discoverComponents_filter:
  "discoverComponents api (Some f) =
     filter (\<lambda>c. (case f_category f of None \<Rightarrow> True | Some cat \<Rightarrow> category c = cat)
                \<and> (case f_tags f of None \<Rightarrow> True
                     | Some ts \<Rightarrow> ts = [] \<or> (\<exists>tag \<in> set ts. tag \<in> set (tags c)))
                \<and> (case f_complexity f of None \<Rightarrow> True | Some cx \<Rightarrow> complexity c = cx)
                \<and> (case f_migrationStatus f of None \<Rightarrow> True
                     | Some ms \<Rightarrow> migrationStatus c = Some ms)
                \<and> (case f_hasSchema f of None \<Rightarrow> True
                     | Some b \<Rightarrow> if b then schema c \<noteq> None \<and> schema c \<noteq> Some ''pending''
                                else schema c = None \<or> schema c = Some ''pending'')
                \<and> (case f_hasDocumentation f of None \<Rightarrow> True
                     | Some b \<Rightarrow> if b then documentation c \<noteq> None
                                          \<and> documentation c \<noteq> Some ''pending''
                                else documentation c = None
                                       \<or> documentation c = Some ''pending'')
                \<and> (case f_hasTesting f of None \<Rightarrow> True | Some b \<Rightarrow> hasTesting c = b))
       (components api)"
  unfolding discoverComponents_def Let_def option.case opt_filter opt_tags_filter filter_filter
  by (rule filter_cong[OF refl]) blast

text \<open>
  Claim C3: the tag filter is any-of. With the other filters \<open>f\<close> fixed, filtering by the
  tags \<open>[a, b]\<close> gives the records of the store, in the store's order, that filtering by
  \<open>[a]\<close> or filtering by \<open>[b]\<close> gives, so the result set is the union of the two; and an
  empty tag list gives the result of leaving the tag filter out.
\<close>

theorem tag_filter_any_of:
  "discoverComponents api (Some (f\<lparr>f_tags := Some [a, b]\<rparr>)) =
     filter (\<lambda>c. c \<in> set (discoverComponents api (Some (f\<lparr>f_tags := Some [a]\<rparr>)))
                \<or> c \<in> set (discoverComponents api (Some (f\<lparr>f_tags := Some [b]\<rparr>))))
       (components api)
   \<and> set (discoverComponents api (Some (f\<lparr>f_tags := Some [a, b]\<rparr>))) =
       set (discoverComponents api (Some (f\<lparr>f_tags := Some [a]\<rparr>)))
       \<union> set (discoverComponents api (Some (f\<lparr>f_tags := Some [b]\<rparr>)))
   \<and> discoverComponents api (Some (f\<lparr>f_tags := Some []\<rparr>)) =
       discoverComponents api (Some (f\<lparr>f_tags := None\<rparr>))"
proof (intro conjI)
  show "discoverComponents api (Some (f\<lparr>f_tags := Some [a, b]\<rparr>)) =
     filter (\<lambda>c. c \<in> set (discoverComponents api (Some (f\<lparr>f_tags := Some [a]\<rparr>)))
                \<or> c \<in> set (discoverComponents api (Some (f\<lparr>f_tags := Some [b]\<rparr>))))
       (components api)"
    unfolding discoverComponents_filter
    by (rule filter_cong[OF refl]) (simp, blast)
  show "set (discoverComponents api (Some (f\<lparr>f_tags := Some [a, b]\<rparr>))) =
       set (discoverComponents api (Some (f\<lparr>f_tags := Some [a]\<rparr>)))
       \<union> set (discoverComponents api (Some (f\<lparr>f_tags := Some [b]\<rparr>)))"
    unfolding discoverComponents_filter set_filter
    by (simp, blast)
  show "discoverComponents api (Some (f\<lparr>f_tags := Some []\<rparr>)) =
       discoverComponents api (Some (f\<lparr>f_tags := None\<rparr>))"
    unfolding discoverComponents_filter by simp
qed

theorem tag_filter_any_of_witness:
  "discoverComponents (AgentAPI_constructor
       [Button_metadata, Button_metadata\<lparr>name := ''Card'', tags := [''layout'']\<rparr>,
        Button_metadata\<lparr>name := ''Label'', tags := [''text'']\<rparr>])
     (Some \<lparr>f_category = Some Atom, f_tags = Some [''form'', ''layout''], f_complexity = None,
            f_migrationStatus = None, f_hasSchema = None, f_hasDocumentation = None,
            f_hasTesting = None\<rparr>)
   = [Button_metadata, Button_metadata\<lparr>name := ''Card'', tags := [''layout'']\<rparr>]"
  using tag_filter_any_of[where api = "AgentAPI_constructor
       [Button_metadata, Button_metadata\<lparr>name := ''Card'', tags := [''layout'']\<rparr>,
        Button_metadata\<lparr>name := ''Label'', tags := [''text'']\<rparr>]"
       and f = "\<lparr>f_category = Some Atom, f_tags = None, f_complexity = None,
            f_migrationStatus = None, f_hasSchema = None, f_hasDocumentation = None,
            f_hasTesting = None\<rparr>" and a = "''form''" and b = "''layout''"]
  by code_simp

section \<open>Keyword search\<close>

lemma startsWith_prefix: "startsWith s sub \<longleftrightarrow> prefix sub s"
  by (induction s sub rule: startsWith.induct) auto

lemma str_includes_sublist: "str_includes s sub \<longleftrightarrow> sublist sub s"
  by (induction s) (simp_all add: startsWith_prefix sublist_Cons_right)

lemma str_includes_empty: "str_includes s []"
  by (simp add: str_includes_sublist)

text \<open>
  Claim C7: keyword search returns, in the store's order, exactly the records for which
  the lowercased query is a contiguous part of the lowercased name, of the lowercased
  description or of some lowercased tag; two queries with the same lowercasing give the
  same result list; and the query \<open>but\<close> finds every cataloged record named \<open>Button\<close>.
\<close>

theorem keyword_search_substring:
  "searchComponents api q =
     filter (\<lambda>c. sublist (toLowerCase q) (toLowerCase (name c))
                \<or> sublist (toLowerCase q) (toLowerCase (description c))
                \<or> (\<exists>tag \<in> set (tags c). sublist (toLowerCase q) (toLowerCase tag)))
       (components api)
   \<and> (\<forall>q'. toLowerCase q' = toLowerCase q \<longrightarrow> searchComponents api q' = searchComponents api q)
   \<and> (\<forall>c \<in> set (components api). name c = ''Button'' \<longrightarrow> c \<in> set (searchComponents api ''but''))"
proof (intro conjI allI impI ballI)
  show "searchComponents api q =
     filter (\<lambda>c. sublist (toLowerCase q) (toLowerCase (name c))
                \<or> sublist (toLowerCase q) (toLowerCase (description c))
                \<or> (\<exists>tag \<in> set (tags c). sublist (toLowerCase q) (toLowerCase tag)))
       (components api)"
    by (simp add: searchComponents_def str_includes_sublist Let_def)
next
  fix q' assume "toLowerCase q' = toLowerCase q"
  then show "searchComponents api q' = searchComponents api q"
    by (simp add: searchComponents_def Let_def)
next
  fix c assume c: "c \<in> set (components api)" "name c = ''Button''"
  have "str_includes (toLowerCase ''Button'') (toLowerCase ''but'')" by code_simp
  with c show "c \<in> set (searchComponents api ''but'')"
    by (simp add: searchComponents_def Let_def)
qed

theorem keyword_search_substring_witness:
  "searchComponents (AgentAPI_constructor componentRegistry) ''BUTTON''
     = searchComponents (AgentAPI_constructor componentRegistry) ''button''
   \<and> Button_metadata \<in> set (searchComponents (AgentAPI_constructor componentRegistry) ''but'')"
proof -
  have h1: "toLowerCase ''BUTTON'' = toLowerCase ''button''" by code_simp
  have h2: "Button_metadata \<in> set (components (AgentAPI_constructor componentRegistry))"
    by (simp add: AgentAPI_constructor_def componentRegistry_def)
  have h3: "name Button_metadata = ''Button''" by (simp add: Button_metadata_def)
  show ?thesis
    using keyword_search_substring[of "AgentAPI_constructor componentRegistry" "''button''"] h1 h2 h3
    by blast
qed

text \<open>
  Claim C9 says that a keyword search with the empty query is rejected as an input
  validation error and never returns the whole store. \<open>searchComponents\<close> has no such
  check: on the registry of the source the empty query returns the whole registry, and
  the tool handler formats it as its result.
\<close>

theorem empty_query_returns_store:
  "searchComponents (AgentAPI_constructor componentRegistry) '''' = componentRegistry
   \<and> so_results (tool_searchComponents (AgentAPI_constructor componentRegistry)
        \<lparr>si_query = '''', si_limit = None\<rparr>)
      = [formatSearchResult Button_metadata '''']"
  by code_simp

text \<open>
  Claim C9, amended: the search operation and the handler of the search tool do not
  check the query. On the empty query \<open>searchComponents\<close> returns every record of the
  store, and the handler returns the first \<open>limit\<close> of them (10 by default) formatted.
  The minimum length of 1 is stated only by the input schema of the tool, which accepts
  an input exactly when its query is not empty, so it rejects the empty query.
\<close>

theorem empty_query_checked_by_schema_only:
  "searchComponents api '''' = components api
   \<and> so_results (tool_searchComponents api \<lparr>si_query = '''', si_limit = lim\<rparr>)
      = map (\<lambda>c. formatSearchResult c '''') (slice0 (components api) (or_default lim 10))
   \<and> \<not> searchComponentsSchema \<lparr>si_query = '''', si_limit = lim\<rparr>
   \<and> (searchComponentsSchema input \<longleftrightarrow> si_query input \<noteq> '''')"
  by (auto simp: searchComponents_def toLowerCase_def str_includes_empty
        tool_searchComponents_def searchComponentsSchema_def Suc_le_eq Let_def)

theorem empty_query_checked_by_schema_only_witness:
  "searchComponents (AgentAPI_constructor componentRegistry) '''' = [Button_metadata]
   \<and> \<not> searchComponentsSchema \<lparr>si_query = '''', si_limit = Some 3\<rparr>
   \<and> searchComponentsSchema \<lparr>si_query = ''b'', si_limit = Some 3\<rparr>"
  using empty_query_checked_by_schema_only[where api = "AgentAPI_constructor componentRegistry"
      and lim = "Some 3" and input = "\<lparr>si_query = ''b'', si_limit = Some 3\<rparr>"]
  by (simp add: AgentAPI_constructor_def componentRegistry_def)

section \<open>Validation through AgentAPI\<close>

text \<open>
  What \<open>validateProps\<close> does for a record whose name is not exactly \<open>Button\<close>: without
  a schema reference it returns \<open>valid = true\<close> with no errors; with one, it throws what
  \<open>require('./validators')\<close> throws, and returns \<open>valid = true\<close> with no errors when that
  module loads. It never reports the supplied properties invalid.
\<close>

lemma validateProps_non_Button:
  assumes "getComponent api s = Some c" and "name c \<noteq> ''Button''"
  shows "validateProps requireValidators buttonSchema api s props =
           (if \<not> truthy (schema c) \<or> schema c = Some ''pending''
            then Inr (Own \<lparr>valid = True, errors = []\<rparr>)
            else case requireValidators of
                   Some exception \<Rightarrow> Inl exception
                 | None \<Rightarrow> Inr (Own \<lparr>valid = True, errors = []\<rparr>))"
  using assms by (simp add: validateProps_def split: option.splits)

lemma validateProps_non_Button_by_name:
  assumes "distinct (map (\<lambda>c. toLowerCase (name c)) registry)" and "R \<in> set registry"
    and "name R \<noteq> ''Button''"
  shows "validateProps None buttonSchema (AgentAPI_constructor registry) (name R) props
           = Inr (Own \<lparr>valid = True, errors = []\<rparr>)"
proof -
  have "getComponent (AgentAPI_constructor registry) (name R) = Some R"
    using lookup_unique[of registry R "name R"] assms(1,2) by simp
  then show ?thesis
    using assms(3) by (simp add: validateProps_non_Button)
qed

text \<open>
  Claim C10 says that for every record whose name is not exactly \<open>Button\<close>, and for every
  supplied property map, \<open>validateProps\<close> returns \<open>valid = true\<close> with no errors. The
  method loads the validators with \<open>require\<close> before its \<open>try\<close> block. For a record \<open>Card\<close>
  with a schema reference, in a module system where \<open>require\<close> is not defined, the call
  does not return: it throws the \<open>ReferenceError\<close>. Where the validators load, the same
  call returns \<open>valid = true\<close> with no errors.
\<close>

theorem validateProps_throws_without_require:
  "getComponent (AgentAPI_constructor [Button_metadata, Button_metadata\<lparr>name := ''Card''\<rparr>])
       ''Card''
     = Some (Button_metadata\<lparr>name := ''Card''\<rparr>)
   \<and> name (Button_metadata\<lparr>name := ''Card''\<rparr>) \<noteq> ''Button''
   \<and> validateProps (Some ReferenceError) None
         (AgentAPI_constructor [Button_metadata, Button_metadata\<lparr>name := ''Card''\<rparr>])
         ''Card'' [(''variant'', JStr ''bogus'')]
       = Inl ReferenceError
   \<and> validateProps None (Some Button_schema)
         (AgentAPI_constructor [Button_metadata, Button_metadata\<lparr>name := ''Card''\<rparr>])
         ''Card'' [(''variant'', JStr ''bogus'')]
       = Inr (Own \<lparr>valid = True, errors = []\<rparr>)"
  by code_simp

theorem validateProps_throws_without_require_witness:
  "validateProps (Some ReferenceError) None
         (AgentAPI_constructor [Button_metadata, Button_metadata\<lparr>name := ''Card''\<rparr>])
         ''Card'' [(''variant'', JStr ''bogus'')]
     \<noteq> Inr (Own \<lparr>valid = True, errors = []\<rparr>)"
  using validateProps_throws_without_require[THEN conjunct2, THEN conjunct2, THEN conjunct1]
  by simp

section \<open>The pending sentinel\<close>

text \<open>
  Claim C6 says that a reference with the value \<open>pending\<close> is read as an absent one
  wherever \<open>hasSchema\<close> and \<open>hasDocumentation\<close> are derived. The filters and the health
  report do so; \<open>formatComponentSummary\<close> does not: for the registry's \<open>Button\<close> with a
  \<open>pending\<close> schema it reports \<open>hasSchema = true\<close>, and \<open>false\<close> with a \<open>null\<close> one, while
  the health report of the same record says \<open>false\<close> and the filter \<open>hasSchema = true\<close>
  leaves the record out. The same holds for the documentation reference. The discovery
  tool, asked for the components without a schema, so lists this record with
  \<open>hasSchema = true\<close>.
\<close>

theorem pending_reference_in_summary:
  "cs_hasSchema (formatComponentSummary (Button_metadata\<lparr>schema := Some ''pending''\<rparr>)) = True
   \<and> cs_hasSchema (formatComponentSummary (Button_metadata\<lparr>schema := None\<rparr>)) = False
   \<and> cs_hasDocumentation
        (formatComponentSummary (Button_metadata\<lparr>documentation := Some ''pending''\<rparr>)) = True
   \<and> cs_hasDocumentation
        (formatComponentSummary (Button_metadata\<lparr>documentation := None\<rparr>)) = False
   \<and> map_option h_hasSchema
        (getComponentHealth (AgentAPI_constructor [Button_metadata\<lparr>schema := Some ''pending''\<rparr>])
           ''Button'') = Some False
   \<and> discoverComponents (AgentAPI_constructor [Button_metadata\<lparr>schema := Some ''pending''\<rparr>])
        (Some \<lparr>f_category = None, f_tags = None, f_complexity = None, f_migrationStatus = None,
               f_hasSchema = Some True, f_hasDocumentation = None, f_hasTesting = None\<rparr>) = []
   \<and> map cs_hasSchema
        (do_components (tool_discoverComponents
           (AgentAPI_constructor [Button_metadata\<lparr>schema := Some ''pending''\<rparr>])
           \<lparr>di_category = None, di_tags = None, di_complexity = None, di_hasSchema = Some False,
             di_hasDocumentation = None, di_limit = None\<rparr>)) = [True]"
  by code_simp

theorem pending_reference_in_summary_witness:
  "cs_hasSchema (formatComponentSummary (Button_metadata\<lparr>schema := Some ''pending''\<rparr>))
   \<and> \<not> cs_hasSchema (formatComponentSummary (Button_metadata\<lparr>schema := None\<rparr>))"
  using pending_reference_in_summary[THEN conjunct1]
    pending_reference_in_summary[THEN conjunct2, THEN conjunct1]
  by simp

section \<open>Property validation against a schema\<close>

lemma fold_pair_append:
  "fold (\<lambda>entry (es, ws). (es @ f entry, ws @ g entry)) xs (e0, w0) =
     (e0 @ concat (map f xs), w0 @ concat (map g xs))"
  by (induction xs arbitrary: e0 w0) simp_all

lemma fold_append_concat:
  "fold (\<lambda>entry es. es @ h entry) xs e0 = e0 @ concat (map h xs)"
  by (induction xs arbitrary: e0) simp_all

lemma validatePropsAgainstSchema_props:
  "s_props s = Some defs \<Longrightarrow>
   validatePropsAgainstSchema (Some s) props =
     \<lparr> pv_valid = (concat (map (\<lambda>e. fst (check_prop defs e)) props)
                     @ concat (map (check_required props) defs) = []),
       pv_errors = concat (map (\<lambda>e. fst (check_prop defs e)) props)
                     @ concat (map (check_required props) defs),
       pv_warnings = concat (map (\<lambda>e. snd (check_prop defs e)) props) \<rparr>"
  by (simp add: validatePropsAgainstSchema_def fold_pair_append fold_append_concat)

lemma validatePropsAgainstSchema_none:
  "sch = None \<or> (\<exists>s. sch = Some s \<and> s_props s = None) \<Longrightarrow>
   validatePropsAgainstSchema sch props = \<lparr> pv_valid = True, pv_errors = [], pv_warnings = [] \<rparr>"
  by (auto simp: validatePropsAgainstSchema_def)

lemma check_prop_error_declared:
  "e \<in> set (fst (check_prop defs entry)) \<Longrightarrow> map_of defs (pv_prop e) \<noteq> None"
  by (auto simp: check_prop_def get_property_def Let_def split: option.splits if_splits)

lemma check_required_declared:
  assumes "entry \<in> set defs" and "e \<in> set (check_required props entry)"
  shows "map_of defs (pv_prop e) \<noteq> None"
proof -
  have "pv_prop e = fst entry"
    using assms(2) by (auto simp: check_required_def Let_def split: if_splits)
  moreover have "fst entry \<in> fst ` set defs"
    using assms(1) by simp
  ultimately show ?thesis
    by (simp add: map_of_eq_None_iff)
qed

lemma check_prop_undeclared:
  "map_of defs pn = None \<Longrightarrow> pn \<notin> set Object_prototype_keys \<Longrightarrow>
   snd (check_prop defs (pn, pv)) =
     [\<lparr> pv_prop = pn, pv_value = pv,
         pv_error = ''Prop not defined in schema (may be a valid HTML attribute)'',
         pv_expected = None \<rparr>]"
  by (simp add: check_prop_def get_property_def)

lemma check_prop_inherited:
  "map_of defs pn = None \<Longrightarrow> pn \<in> set Object_prototype_keys \<Longrightarrow>
   check_prop defs (pn, pv) = ([], [])"
  by (simp add: check_prop_def get_property_def)

lemma valid_iff_no_errors:
  "pv_valid (validatePropsAgainstSchema sch props)
     = (pv_errors (validatePropsAgainstSchema sch props) = [])"
proof (cases "case sch of None \<Rightarrow> None | Some s \<Rightarrow> s_props s")
  case None
  then show ?thesis by (simp add: validatePropsAgainstSchema_def)
next
  case (Some defs)
  then obtain s where "sch = Some s" "s_props s = Some defs"
    by (cases sch) auto
  then show ?thesis by (simp add: validatePropsAgainstSchema_props)
qed

lemma undeclared_prop_warned:
  assumes "s_props s = Some defs" and "(pn, pv) \<in> set props" and "map_of defs pn = None"
    and "pn \<notin> set Object_prototype_keys"
  shows "\<exists>w \<in> set (pv_warnings (validatePropsAgainstSchema (Some s) props)).
           pv_prop w = pn \<and> pv_value w = pv"
proof -
  let ?w = "\<lparr> pv_prop = pn, pv_value = pv,
         pv_error = ''Prop not defined in schema (may be a valid HTML attribute)'',
         pv_expected = None \<rparr>"
  have "?w \<in> set (snd (check_prop defs (pn, pv)))"
    using assms(3,4) by (simp add: check_prop_undeclared)
  then have "?w \<in> set (concat (map (\<lambda>e. snd (check_prop defs e)) props))"
    using assms(2) by (simp only: set_concat set_map) blast
  then have "?w \<in> set (pv_warnings (validatePropsAgainstSchema (Some s) props))"
    by (simp add: validatePropsAgainstSchema_props[OF assms(1)])
  moreover have "pv_prop ?w = pn \<and> pv_value ?w = pv" by simp
  ultimately show ?thesis by blast
qed

lemma errors_name_declared_props:
  assumes "s_props s = Some defs"
    and "e \<in> set (pv_errors (validatePropsAgainstSchema (Some s) props))"
  shows "map_of defs (pv_prop e) \<noteq> None"
proof -
  have "e \<in> set (concat (map (\<lambda>e. fst (check_prop defs e)) props))
          \<or> e \<in> set (concat (map (check_required props) defs))"
    using assms(2) by (simp add: validatePropsAgainstSchema_props[OF assms(1)])
  then show ?thesis
  proof
    assume "e \<in> set (concat (map (\<lambda>e. fst (check_prop defs e)) props))"
    then obtain entry where "e \<in> set (fst (check_prop defs entry))" by auto
    then show ?thesis by (rule check_prop_error_declared)
  next
    assume "e \<in> set (concat (map (check_required props) defs))"
    then obtain entry where "entry \<in> set defs" "e \<in> set (check_required props entry)" by auto
    then show ?thesis by (rule check_required_declared)
  qed
qed

text \<open>
  What holds of \<open>validatePropsAgainstSchema\<close> for every schema and every supplied
  property list: the result is valid exactly when its error list is empty, whatever the
  warnings are; a supplied property that the schema's props section does not declare,
  and whose name is not one of the names inherited from \<open>Object.prototype\<close>, gets a
  warning with its name and value; no error names an undeclared property; and without a
  schema, or with a schema that has no props section, the result is valid with no errors
  and no warnings.
\<close>

lemma validatePropsAgainstSchema_own_names:
  "(pv_valid (validatePropsAgainstSchema sch props)
      \<longleftrightarrow> pv_errors (validatePropsAgainstSchema sch props) = [])
   \<and> (sch = Some s \<and> s_props s = Some defs \<and> (pn, pv) \<in> set props \<and> map_of defs pn = None
        \<longrightarrow> (pn \<notin> set Object_prototype_keys
              \<longrightarrow> (\<exists>w \<in> set (pv_warnings (validatePropsAgainstSchema sch props)).
                    pv_prop w = pn \<and> pv_value w = pv))
            \<and> (\<forall>e \<in> set (pv_errors (validatePropsAgainstSchema sch props)). pv_prop e \<noteq> pn))
   \<and> (sch = None \<or> (\<exists>s. sch = Some s \<and> s_props s = None)
        \<longrightarrow> validatePropsAgainstSchema sch props
              = \<lparr> pv_valid = True, pv_errors = [], pv_warnings = [] \<rparr>)"
proof -
  have p1: "pv_valid (validatePropsAgainstSchema sch props)
      \<longleftrightarrow> pv_errors (validatePropsAgainstSchema sch props) = []"
    by (rule valid_iff_no_errors)
  have p2: "\<exists>w \<in> set (pv_warnings (validatePropsAgainstSchema sch props)).
                pv_prop w = pn \<and> pv_value w = pv"
    if "sch = Some s \<and> s_props s = Some defs \<and> (pn, pv) \<in> set props \<and> map_of defs pn = None"
      and "pn \<notin> set Object_prototype_keys"
    using that undeclared_prop_warned[of s defs pn pv props] by simp
  have p3: "\<forall>e \<in> set (pv_errors (validatePropsAgainstSchema sch props)). pv_prop e \<noteq> pn"
    if h: "sch = Some s \<and> s_props s = Some defs \<and> (pn, pv) \<in> set props \<and> map_of defs pn = None"
  proof
    fix e assume "e \<in> set (pv_errors (validatePropsAgainstSchema sch props))"
    then have "map_of defs (pv_prop e) \<noteq> None"
      using h errors_name_declared_props[of s defs e props] by simp
    then show "pv_prop e \<noteq> pn" using h by auto
  qed
  have p4: "validatePropsAgainstSchema sch props
              = \<lparr> pv_valid = True, pv_errors = [], pv_warnings = [] \<rparr>"
    if "sch = None \<or> (\<exists>s. sch = Some s \<and> s_props s = None)"
    using that by (rule validatePropsAgainstSchema_none)
  show ?thesis
    using p1 p2 p3 p4 by (intro conjI impI) assumption+
qed

text \<open>
  Claim C4 says, among other things, that every supplied property the schema's property
  set does not declare produces a warning. The validator looks the name up with
  \<open>schemaPropDefinitions[propName]\<close>, which also finds inherited members. The \<open>Button\<close>
  schema does not declare \<open>toString\<close>, yet for the supplied properties \<open>toString\<close> and
  \<open>children\<close> the result has no warning (and no error); for the undeclared \<open>onClick\<close> in
  its place the warning is there.
\<close>

theorem undeclared_inherited_name_not_warned:
  "''toString'' \<notin> set (map fst (case s_props Button_schema of Some defs \<Rightarrow> defs | None \<Rightarrow> []))
   \<and> validatePropsAgainstSchema (Some Button_schema)
         [(''toString'', JStr ''x''), (''children'', JStr ''Save'')]
       = \<lparr> pv_valid = True, pv_errors = [], pv_warnings = [] \<rparr>
   \<and> validatePropsAgainstSchema (Some Button_schema)
         [(''onClick'', JStr ''x''), (''children'', JStr ''Save'')]
       = \<lparr> pv_valid = True, pv_errors = [],
           pv_warnings = [\<lparr> pv_prop = ''onClick'', pv_value = JStr ''x'',
                             pv_error = ''Prop not defined in schema (may be a valid HTML attribute)'',
                             pv_expected = None \<rparr>] \<rparr>"
  by code_simp

theorem undeclared_inherited_name_not_warned_witness:
  "pv_warnings (validatePropsAgainstSchema (Some Button_schema)
         [(''toString'', JStr ''x''), (''children'', JStr ''Save'')]) = []"
  using undeclared_inherited_name_not_warned[THEN conjunct2, THEN conjunct1]
  by simp

section \<open>Design tokens\<close>

lemma hyphen_not_word: "\<not> isWordChar (CHR ''-'')"
  by (simp add: isWordChar_def)

lemma digit_is_word: "isDigit c \<Longrightarrow> isWordChar c"
  by (auto simp: isDigit_def isWordChar_def Let_def)

lemma color_rest_token:
  assumes "w \<noteq> []" and "\<forall>c \<in> set w. isWordChar c"
    and "d \<noteq> []" and "\<forall>c \<in> set d. isDigit c"
    and "post = [] \<or> \<not> isDigit (hd post)"
  shows "color_rest (''-'' @ w @ ''-'' @ d @ post) = Some (w @ ''-'' @ d)"
proof -
  have tw: "takeWhile isWordChar (w @ CHR ''-'' # d @ post) = w"
    using assms(2) by (simp add: takeWhile_append2 hyphen_not_word)
  have dw: "dropWhile isWordChar (w @ CHR ''-'' # d @ post) = CHR ''-'' # d @ post"
    using assms(2) by (simp add: dropWhile_append2 hyphen_not_word)
  have td: "takeWhile isDigit (d @ post) = d"
    using assms(4,5) by (cases post) (simp_all add: takeWhile_append2)
  show ?thesis
    using assms(1,3) by (simp add: color_rest_def tw dw td)
qed

lemma colorRegex_at_token:
  assumes "p \<in> {''bg'', ''text'', ''border''}"
    and "w \<noteq> []" and "\<forall>c \<in> set w. isWordChar c"
    and "d \<noteq> []" and "\<forall>c \<in> set d. isDigit c"
    and "post = [] \<or> \<not> isDigit (hd post)"
  shows "colorRegex_at (p @ ''-'' @ w @ ''-'' @ d @ post)
           = Some (p @ ''-'' @ w @ ''-'' @ d, w @ ''-'' @ d)"
proof -
  have r: "color_rest (CHR ''-'' # w @ CHR ''-'' # d @ post) = Some (w @ ''-'' @ d)"
    using color_rest_token[OF assms(2-6)] by simp
  from assms(1) consider "p = ''bg''" | "p = ''text''" | "p = ''border''" by auto
  then show ?thesis
  proof cases
    case 1 then show ?thesis by (simp add: colorRegex_at_def r)
  next
    case 2 then show ?thesis by (simp add: colorRegex_at_def r)
  next
    case 3 then show ?thesis by (simp add: colorRegex_at_def r)
  qed
qed

lemma color_rest_shape:
  assumes "color_rest s = Some g"
  shows "prefix (''-'' @ g) s \<and> (\<forall>c \<in> set g. isWordChar c \<or> c = CHR ''-'') \<and> CHR ''-'' \<in> set g"
proof -
  from assms obtain r where s: "s = CHR ''-'' # r"
    by (auto simp: color_rest_def split: list.splits if_splits)
  let ?w = "takeWhile isWordChar r"
  from assms s obtain r3 where r2: "dropWhile isWordChar r = CHR ''-'' # r3"
    and g: "g = ?w @ ''-'' @ takeWhile isDigit r3"
    by (auto simp: color_rest_def Let_def split: list.splits if_splits)
  have "s = CHR ''-'' # (?w @ dropWhile isWordChar r)"
    using s by simp
  also have "\<dots> = CHR ''-'' # ?w @ CHR ''-'' # (takeWhile isDigit r3 @ dropWhile isDigit r3)"
    using r2 by simp
  also have "\<dots> = (''-'' @ g) @ dropWhile isDigit r3"
    unfolding g by simp
  finally have p: "prefix (''-'' @ g) s"
    by (rule prefixI)
  have "\<forall>c \<in> set ?w. isWordChar c" by (auto dest: set_takeWhileD)
  moreover have "\<forall>c \<in> set (takeWhile isDigit r3). isWordChar c"
    by (auto dest: set_takeWhileD digit_is_word)
  ultimately have "\<forall>c \<in> set g. isWordChar c \<or> c = CHR ''-''"
    unfolding g by auto
  with p g show ?thesis by auto
qed

lemma colorRegex_at_shape:
  assumes "colorRegex_at s = Some (m, g)"
  shows "prefix m s \<and> m \<noteq> [] \<and> (\<forall>c \<in> set m. isWordChar c \<or> c = CHR ''-'')"
proof -
  have alt: "\<exists>p. p \<in> set ps \<and> startsWith s p \<and> color_rest (drop (length p) s) = Some g
               \<and> m = p @ ''-'' @ g"
    if "color_alternatives ps s = Some (m, g)" for ps
    using that by (induction ps) (auto split: if_splits option.splits)
  from assms obtain p where p: "p \<in> set [''bg'', ''text'', ''border'']" "startsWith s p"
    "color_rest (drop (length p) s) = Some g" "m = p @ ''-'' @ g"
    using alt unfolding colorRegex_at_def by blast
  have pw: "\<forall>c \<in> set p. isWordChar c"
    using p(1) by (auto simp: isWordChar_def)
  from p(2) have "prefix p s" by (simp add: startsWith_prefix)
  then have s: "s = p @ drop (length p) s"
    by (metis append_eq_conv_conj prefix_def)
  from color_rest_shape[OF p(3)] have
    a: "prefix (''-'' @ g) (drop (length p) s)" and b: "\<forall>c \<in> set g. isWordChar c \<or> c = CHR ''-''"
    by auto
  have "prefix (p @ ''-'' @ g) (p @ drop (length p) s)"
    using a by simp
  then have "prefix m s" using s p(4) by simp
  moreover have "m \<noteq> []" using p(4) by simp
  moreover have "\<forall>c \<in> set m. isWordChar c \<or> c = CHR ''-''"
    using pw b p(4) by auto
  ultimately show ?thesis by blast
qed


lemma colorRegex_exec_all_finds:
  assumes "colorRegex_at (t @ post) = Some (t, g)"
    and "pre = [] \<or> (\<not> isWordChar (last pre) \<and> last pre \<noteq> CHR ''-'')"
  shows "(t, g) \<in> set (colorRegex_exec_all (pre @ t @ post))"
  using assms(2)
proof (induction "length pre" arbitrary: pre rule: less_induct)
  case less
  have tne: "t \<noteq> []"
    using colorRegex_at_shape[OF assms(1)] by simp
  show ?case
  proof (cases pre)
    case Nil
    obtain c cs where tp: "t @ post = c # cs"
      using tne by (cases "t @ post") auto
    show ?thesis
      using assms(1) unfolding Nil by (simp add: tp)
  next
    case (Cons c pre')
    have lastpre: "\<not> isWordChar (last pre) \<and> last pre \<noteq> CHR ''-''"
      using less.prems Cons by simp
    show ?thesis
    proof (cases "colorRegex_at (c # pre' @ t @ post)")
      case None
      have "pre' = [] \<or> (\<not> isWordChar (last pre') \<and> last pre' \<noteq> CHR ''-'')"
        using lastpre Cons by (cases pre') auto
      then have "(t, g) \<in> set (colorRegex_exec_all (pre' @ t @ post))"
        using less.hyps[of pre'] Cons by simp
      then show ?thesis
        unfolding Cons using None by simp
    next
      case (Some mg)
      obtain m g' where mg: "mg = (m, g')" by (cases mg)
      from colorRegex_at_shape[OF Some[unfolded mg]]
      have pm: "prefix m (pre @ t @ post)" and mne: "m \<noteq> []"
        and mtok: "\<forall>x \<in> set m. isWordChar x \<or> x = CHR ''-''"
        unfolding Cons by simp_all
      have short: "length m < length pre"
      proof (rule ccontr)
        assume "\<not> length m < length pre"
        then have lm: "length pre \<le> length m" by simp
        have "prefix pre m"
          by (rule prefix_length_prefix[of pre "pre @ t @ post" m]) (use pm lm in simp_all)
        then have "set pre \<subseteq> set m"
          by (rule set_mono_prefix)
        moreover have "last pre \<in> set pre"
          using Cons by simp
        ultimately have "last pre \<in> set m" by blast
        with mtok lastpre show False by blast
      qed
      let ?pre'' = "drop (length m - 1) pre'"
      have len: "length m - 1 < length pre'"
        using short mne Cons by (cases m) auto
      then have ne: "?pre'' \<noteq> []" by simp
      have "last ?pre'' = last pre'"
        using len by simp
      also have "\<dots> = last pre"
        using Cons ne by (cases pre') auto
      finally have "\<not> isWordChar (last ?pre'') \<and> last ?pre'' \<noteq> CHR ''-''"
        using lastpre by simp
      moreover have "length ?pre'' < length pre"
        using Cons by simp
      ultimately have "(t, g) \<in> set (colorRegex_exec_all (?pre'' @ t @ post))"
        using less.hyps[of ?pre''] by blast
      moreover have "drop (length m - 1) (pre' @ t @ post) = ?pre'' @ t @ post"
        using len by simp
      ultimately show ?thesis
        unfolding Cons using Some mg by simp
    qed
  qed
qed

lemma takeWhile_notin:
  "a \<notin> set xs \<Longrightarrow> takeWhile (\<lambda>x. x \<noteq> a) (xs @ ys) = xs @ takeWhile (\<lambda>x. x \<noteq> a) ys"
  by (induction xs) auto

lemma dropWhile_notin:
  "a \<notin> set xs \<Longrightarrow> dropWhile (\<lambda>x. x \<noteq> a) (xs @ ys) = dropWhile (\<lambda>x. x \<noteq> a) ys"
  by (induction xs) auto

lemma takeWhile_in:
  "a \<in> set xs \<Longrightarrow> takeWhile (\<lambda>x. x \<noteq> a) (xs @ ys) = takeWhile (\<lambda>x. x \<noteq> a) xs"
  by (induction xs) auto

lemma length_takeWhile_less:
  "x \<in> set xs \<Longrightarrow> \<not> P x \<Longrightarrow> length (takeWhile P xs) < length xs"
  by (induction xs) auto

lemma arbitraryRegex_at_token:
  assumes "body \<noteq> []" and "CHR '']'' \<notin> set body"
  shows "arbitraryRegex_at (''['' @ body @ '']'' @ post) = Some (''['' @ body @ '']'')"
proof -
  have "takeWhile (\<lambda>x. x \<noteq> CHR '']'') (body @ CHR '']'' # post) = body"
    using assms(2) by (simp add: takeWhile_notin)
  moreover have "dropWhile (\<lambda>x. x \<noteq> CHR '']'') (body @ CHR '']'' # post) = CHR '']'' # post"
    using assms(2) by (simp add: dropWhile_notin)
  ultimately show ?thesis
    using assms(1) by (simp add: arbitraryRegex_at_def)
qed

lemma arbitraryRegex_at_shape:
  assumes "arbitraryRegex_at s = Some m"
  shows "\<exists>r. s = CHR ''['' # r \<and> CHR '']'' \<in> set r
           \<and> m = CHR ''['' # takeWhile (\<lambda>x. x \<noteq> CHR '']'') r @ '']''"
proof -
  from assms obtain r where s: "s = CHR ''['' # r"
    by (auto simp: arbitraryRegex_at_def split: list.splits if_splits)
  from assms s have d: "dropWhile (\<lambda>x. x \<noteq> CHR '']'') r \<noteq> []"
    and m: "m = CHR ''['' # takeWhile (\<lambda>x. x \<noteq> CHR '']'') r @ '']''"
    by (auto simp: arbitraryRegex_at_def Let_def split: if_splits)
  from d have "CHR '']'' \<in> set r"
    by (auto simp: dropWhile_eq_Nil_conv)
  with s m show ?thesis by blast
qed

lemma closed_drop:
  assumes "CHR ''['' \<notin> set (takeWhile (\<lambda>c. c \<noteq> CHR '']'') (rev (xs @ ys)))"
  shows "CHR ''['' \<notin> set (takeWhile (\<lambda>c. c \<noteq> CHR '']'') (rev ys))"
proof (cases "CHR '']'' \<in> set ys")
  case True
  then have "takeWhile (\<lambda>c. c \<noteq> CHR '']'') (rev ys @ rev xs)
               = takeWhile (\<lambda>c. c \<noteq> CHR '']'') (rev ys)"
    by (simp add: takeWhile_in)
  with assms show ?thesis by simp
next
  case False
  then have "takeWhile (\<lambda>c. c \<noteq> CHR '']'') (rev ys @ rev xs)
               = rev ys @ takeWhile (\<lambda>c. c \<noteq> CHR '']'') (rev xs)"
    by (simp add: takeWhile_notin)
  with assms False show ?thesis
    by (auto dest: set_takeWhileD)
qed

lemma arbitraryRegex_exec_all_finds:
  assumes "arbitraryRegex_at (t @ post) = Some t"
    and "CHR ''['' \<notin> set (takeWhile (\<lambda>c. c \<noteq> CHR '']'') (rev pre))"
  shows "t \<in> set (arbitraryRegex_exec_all (pre @ t @ post))"
  using assms(2)
proof (induction "length pre" arbitrary: pre rule: less_induct)
  case less
  have tne: "t \<noteq> []"
    using arbitraryRegex_at_shape[OF assms(1)] by auto
  show ?case
  proof (cases pre)
    case Nil
    obtain c cs where tp: "t @ post = c # cs"
      using tne by (cases "t @ post") auto
    show ?thesis
      using assms(1) unfolding Nil by (simp add: tp)
  next
    case (Cons c pre')
    have closed': "CHR ''['' \<notin> set (takeWhile (\<lambda>c. c \<noteq> CHR '']'') (rev (drop n pre')))" for n
    proof -
      have "CHR ''['' \<notin> set (takeWhile (\<lambda>c. c \<noteq> CHR '']'')
                             (rev ((c # take n pre') @ drop n pre')))"
        using less.prems Cons by simp
      then show ?thesis by (rule closed_drop)
    qed
    show ?thesis
    proof (cases "arbitraryRegex_at (c # pre' @ t @ post)")
      case None
      have "t \<in> set (arbitraryRegex_exec_all (pre' @ t @ post))"
        using less.hyps[of pre'] closed'[of 0] Cons by simp
      then show ?thesis
        unfolding Cons using None by simp
    next
      case (Some m)
      from arbitraryRegex_at_shape[OF Some]
      have c: "c = CHR ''[''"
        and m: "m = CHR ''['' # takeWhile (\<lambda>x. x \<noteq> CHR '']'') (pre' @ t @ post) @ '']''"
        by auto
      have inpre: "CHR '']'' \<in> set pre'"
      proof (rule ccontr)
        assume n: "CHR '']'' \<notin> set pre'"
        then have tw0: "takeWhile (\<lambda>c. c \<noteq> CHR '']'') (rev pre' @ [c]) = rev pre' @ [c]"
          using c by (simp add: takeWhile_notin)
        have rp: "rev pre = rev pre' @ [c]"
          using Cons by simp
        have "CHR ''['' \<in> set (takeWhile (\<lambda>c. c \<noteq> CHR '']'') (rev pre))"
          unfolding rp tw0 using c by simp
        with less.prems show False by simp
      qed
      then have tw: "takeWhile (\<lambda>x. x \<noteq> CHR '']'') (pre' @ t @ post)
                       = takeWhile (\<lambda>x. x \<noteq> CHR '']'') pre'"
        by (rule takeWhile_in)
      have "length (takeWhile (\<lambda>x. x \<noteq> CHR '']'') pre') < length pre'"
        using inpre by (rule length_takeWhile_less) simp
      then have len: "length m - 1 \<le> length pre'"
        unfolding m tw by simp
      let ?pre'' = "drop (length m - 1) pre'"
      have "length ?pre'' < length pre" using Cons by simp
      then have "t \<in> set (arbitraryRegex_exec_all (?pre'' @ t @ post))"
        using less.hyps[of ?pre''] closed'[of "length m - 1"] by blast
      moreover have "drop (length m - 1) (pre' @ t @ post) = ?pre'' @ t @ post"
        using len by simp
      ultimately show ?thesis
        unfolding Cons using Some by simp
    qed
  qed
qed

lemma differ_by_member: "c \<in> set xs \<Longrightarrow> c \<notin> set ys \<Longrightarrow> xs \<noteq> ys"
  by auto

lemma color_token_collected:
  assumes "p \<in> {''bg'', ''text'', ''border''}"
    and "w \<noteq> []" and "\<forall>c \<in> set w. isWordChar c"
    and "d \<noteq> []" and "\<forall>c \<in> set d. isDigit c"
    and "pre = [] \<or> (\<not> isWordChar (last pre) \<and> last pre \<noteq> CHR ''-'')"
    and "post = [] \<or> \<not> isDigit (hd post)"
  shows "p @ ''-'' @ w @ ''-'' @ d
           \<in> set (dt_hardCodedValues (validateDesignTokens (pre @ p @ ''-'' @ w @ ''-'' @ d @ post)))"
proof -
  let ?t = "p @ ''-'' @ w @ ''-'' @ d" and ?g = "w @ ''-'' @ d"
  have at: "colorRegex_at (?t @ post) = Some (?t, ?g)"
    using colorRegex_at_token[OF assms(1-5) assms(7)] by simp
  have "(?t, ?g) \<in> set (colorRegex_exec_all (pre @ ?t @ post))"
    using at assms(6) by (rule colorRegex_exec_all_finds)
  moreover have "?g \<noteq> ''inherit'' \<and> ?g \<noteq> ''current'' \<and> ?g \<noteq> ''transparent''"
    by (intro conjI differ_by_member[of "CHR ''-''"]) simp_all
  ultimately have "(?t, ?g) \<in> set (filter (\<lambda>m. snd m \<noteq> ''inherit'' \<and> snd m \<noteq> ''current''
                                \<and> snd m \<noteq> ''transparent'') (colorRegex_exec_all (pre @ ?t @ post)))"
    by simp
  then have "?t \<in> fst ` set (filter (\<lambda>m. snd m \<noteq> ''inherit'' \<and> snd m \<noteq> ''current''
                                \<and> snd m \<noteq> ''transparent'') (colorRegex_exec_all (pre @ ?t @ post)))"
    by (rule image_eqI[rotated]) simp
  then show ?thesis
    by (simp add: validateDesignTokens_def Let_def)
qed

lemma arbitrary_token_collected:
  assumes "body \<noteq> []" and "CHR '']'' \<notin> set body"
    and "CHR ''['' \<notin> set (takeWhile (\<lambda>c. c \<noteq> CHR '']'') (rev pre))"
  shows "''['' @ body @ '']''
           \<in> set (dt_hardCodedValues (validateDesignTokens (pre @ ''['' @ body @ '']'' @ post)))"
proof -
  let ?t = "''['' @ body @ '']''"
  have at: "arbitraryRegex_at (?t @ post) = Some ?t"
    using arbitraryRegex_at_token[OF assms(1,2)] by simp
  have "?t \<in> set (arbitraryRegex_exec_all (pre @ ?t @ post))"
    using at assms(3) by (rule arbitraryRegex_exec_all_finds)
  then show ?thesis
    by (simp add: validateDesignTokens_def Let_def)
qed

text \<open>
  Claim C8: \<open>validateDesignTokens\<close> is invalid exactly when its list of hard-coded values
  is not empty. A colour token \<open>p-w-d\<close>, with \<open>p\<close> one of \<open>bg\<close>, \<open>text\<close>, \<open>border\<close>, \<open>w\<close>
  a non-empty word and \<open>d\<close> a non-empty number, is in that list whenever it stands as a
  token in the class string: at its start or after a character that is neither a word
  character nor a hyphen, and not followed by a further digit. The exclusion of
  \<open>inherit\<close>, \<open>current\<close> and \<open>transparent\<close> never removes such a token, since \<open>w-d\<close>
  contains a hyphen. A bracket token \<open>[body]\<close> with a non-empty body free of closing
  brackets is in the list whenever no opening bracket before it is still unclosed.
  \<open>bg-blue-500\<close> is invalid and listed; \<open>bg-primary\<close> is valid with an empty list.
\<close>

theorem validateDesignTokens_collects:
  "(\<not> dt_valid (validateDesignTokens className)
      \<longleftrightarrow> dt_hardCodedValues (validateDesignTokens className) \<noteq> [])
   \<and> (className = pre @ p @ ''-'' @ w @ ''-'' @ d @ post
        \<and> p \<in> {''bg'', ''text'', ''border''}
        \<and> w \<noteq> [] \<and> (\<forall>c \<in> set w. isWordChar c)
        \<and> d \<noteq> [] \<and> (\<forall>c \<in> set d. isDigit c)
        \<and> (pre = [] \<or> (\<not> isWordChar (last pre) \<and> last pre \<noteq> CHR ''-''))
        \<and> (post = [] \<or> \<not> isDigit (hd post))
      \<longrightarrow> p @ ''-'' @ w @ ''-'' @ d \<in> set (dt_hardCodedValues (validateDesignTokens className)))
   \<and> (className = pre' @ ''['' @ body @ '']'' @ post'
        \<and> body \<noteq> [] \<and> CHR '']'' \<notin> set body
        \<and> CHR ''['' \<notin> set (takeWhile (\<lambda>c. c \<noteq> CHR '']'') (rev pre'))
      \<longrightarrow> ''['' @ body @ '']'' \<in> set (dt_hardCodedValues (validateDesignTokens className)))
   \<and> \<not> dt_valid (validateDesignTokens ''bg-blue-500'')
   \<and> ''bg-blue-500'' \<in> set (dt_hardCodedValues (validateDesignTokens ''bg-blue-500''))
   \<and> dt_valid (validateDesignTokens ''bg-primary'')
   \<and> dt_hardCodedValues (validateDesignTokens ''bg-primary'') = []"
proof -
  have p1: "\<not> dt_valid (validateDesignTokens className)
      \<longleftrightarrow> dt_hardCodedValues (validateDesignTokens className) \<noteq> []"
    by (simp add: validateDesignTokens_def Let_def)
  have p2: "p @ ''-'' @ w @ ''-'' @ d \<in> set (dt_hardCodedValues (validateDesignTokens className))"
    if "className = pre @ p @ ''-'' @ w @ ''-'' @ d @ post
        \<and> p \<in> {''bg'', ''text'', ''border''}
        \<and> w \<noteq> [] \<and> (\<forall>c \<in> set w. isWordChar c)
        \<and> d \<noteq> [] \<and> (\<forall>c \<in> set d. isDigit c)
        \<and> (pre = [] \<or> (\<not> isWordChar (last pre) \<and> last pre \<noteq> CHR ''-''))
        \<and> (post = [] \<or> \<not> isDigit (hd post))"
    using that color_token_collected[of p w d pre post] by blast
  have p3: "''['' @ body @ '']'' \<in> set (dt_hardCodedValues (validateDesignTokens className))"
    if "className = pre' @ ''['' @ body @ '']'' @ post'
        \<and> body \<noteq> [] \<and> CHR '']'' \<notin> set body
        \<and> CHR ''['' \<notin> set (takeWhile (\<lambda>c. c \<noteq> CHR '']'') (rev pre'))"
    using that arbitrary_token_collected[of body pre' post'] by blast
  have p4: "\<not> dt_valid (validateDesignTokens ''bg-blue-500'')" by code_simp
  have p5: "''bg-blue-500'' \<in> set (dt_hardCodedValues (validateDesignTokens ''bg-blue-500''))"
    by code_simp
  have p6: "dt_valid (validateDesignTokens ''bg-primary'')" by code_simp
  have p7: "dt_hardCodedValues (validateDesignTokens ''bg-primary'') = []" by code_simp
  show ?thesis
    using p1 p2 p3 p4 p5 p6 p7 by (intro conjI impI) assumption+
qed

theorem validateDesignTokens_collects_witness:
  "''bg-blue-500'' \<in> set (dt_hardCodedValues (validateDesignTokens ''p-4 hover:bg-blue-500 w-[10px] m-2''))
   \<and> ''[10px]'' \<in> set (dt_hardCodedValues (validateDesignTokens ''p-4 hover:bg-blue-500 w-[10px] m-2''))"
proof -
  have h1: "''p-4 hover:bg-blue-500 w-[10px] m-2''
              = ''p-4 hover:'' @ ''bg'' @ ''-'' @ ''blue'' @ ''-'' @ ''500'' @ '' w-[10px] m-2''
        \<and> ''bg'' \<in> {''bg'', ''text'', ''border''}
        \<and> ''blue'' \<noteq> [] \<and> (\<forall>c \<in> set ''blue''. isWordChar c)
        \<and> ''500'' \<noteq> [] \<and> (\<forall>c \<in> set ''500''. isDigit c)
        \<and> (''p-4 hover:'' = [] \<or> (\<not> isWordChar (last ''p-4 hover:'') \<and> last ''p-4 hover:'' \<noteq> CHR ''-''))
        \<and> ('' w-[10px] m-2'' = [] \<or> \<not> isDigit (hd '' w-[10px] m-2''))"
    by (simp add: isWordChar_def isDigit_def)
  have h2: "''p-4 hover:bg-blue-500 w-[10px] m-2''
              = ''p-4 hover:bg-blue-500 w-'' @ ''['' @ ''10px'' @ '']'' @ '' m-2''
        \<and> ''10px'' \<noteq> [] \<and> CHR '']'' \<notin> set ''10px''
        \<and> CHR ''['' \<notin> set (takeWhile (\<lambda>c. c \<noteq> CHR '']'') (rev ''p-4 hover:bg-blue-500 w-''))"
    by simp
  note T = validateDesignTokens_collects
      [where className = "''p-4 hover:bg-blue-500 w-[10px] m-2''"
         and pre = "''p-4 hover:''" and p = "''bg''" and w = "''blue''" and d = "''500''"
         and post = "'' w-[10px] m-2''"
         and pre' = "''p-4 hover:bg-blue-500 w-''" and body = "''10px''" and post' = "'' m-2''"]
  have c2: "''bg'' @ ''-'' @ ''blue'' @ ''-'' @ ''500''
      \<in> set (dt_hardCodedValues (validateDesignTokens ''p-4 hover:bg-blue-500 w-[10px] m-2''))"
    using T[THEN conjunct2, THEN conjunct1] h1 by (rule mp)
  have c3: "''['' @ ''10px'' @ '']''
      \<in> set (dt_hardCodedValues (validateDesignTokens ''p-4 hover:bg-blue-500 w-[10px] m-2''))"
    using T[THEN conjunct2, THEN conjunct2, THEN conjunct1] h2 by (rule mp)
  from c2 c3 show ?thesis by simp
qed

section \<open>Suggestions for a name that is not found\<close>

subsection \<open>The loops compute the table\<close>

lemma js_assign_end: "js_assign xs (length xs) v = xs @ [v]"
  by (simp add: js_assign_def)

lemma js_assign_map_upt: "js_assign (map f [0..<k]) k (f k) = map f [0..<Suc k]"
  using js_assign_end[of "map f [0..<k]" "f k"] by simp

lemma lev_init_rows:
  "fold (\<lambda>i m. js_assign m i [i]) [0..<k] [] = map (\<lambda>i. [i]) [0..<k]"
proof (induction k)
  case 0
  then show ?case by simp
next
  case (Suc k)
  then show ?case
    using js_assign_map_upt[of "\<lambda>i. [i]" k] by simp
qed

lemma lev_matrix_nth:
  "i' \<le> length b \<Longrightarrow> lev_matrix a b i k ! i' = lev_row a b i k i'"
  unfolding lev_matrix_def by (simp del: upt_Suc)

lemma lev_matrix_update:
  assumes "i \<le> length b"
  shows "(lev_matrix a b i k)[i := map (lev_table a b i) [0..<Suc (Suc k)]]
           = lev_matrix a b i (Suc k)"
proof (rule nth_equalityI)
  show "length ((lev_matrix a b i k)[i := map (lev_table a b i) [0..<Suc (Suc k)]])
          = length (lev_matrix a b i (Suc k))"
    by (simp add: lev_matrix_def)
next
  fix n assume "n < length ((lev_matrix a b i k)[i := map (lev_table a b i) [0..<Suc (Suc k)]])"
  then have n: "n \<le> length b" by (simp add: lev_matrix_def)
  show "(lev_matrix a b i k)[i := map (lev_table a b i) [0..<Suc (Suc k)]] ! n
          = lev_matrix a b i (Suc k) ! n"
  proof (cases "n = i")
    case True
    then show ?thesis
      using assms by (simp add: lev_matrix_nth lev_row_def del: upt_Suc) (simp add: lev_matrix_def)
  next
    case False
    then show ?thesis
      using n by (simp add: lev_matrix_nth lev_row_def del: upt_Suc)
  qed
qed

lemma lev_cell_step:
  assumes "Suc i0 \<le> length b" and "k < length a"
  shows "lev_cell a b (Suc i0) (Suc k) (lev_matrix a b (Suc i0) k) = lev_matrix a b (Suc i0) (Suc k)"
proof -
  let ?M = "lev_matrix a b (Suc i0) k"
  have r_prev: "?M ! i0 ! j = lev_table a b i0 j" if "j \<le> length a" for j
    using that assms(1) by (simp add: lev_matrix_nth lev_row_def del: upt_Suc)
  have row: "?M ! Suc i0 = map (lev_table a b (Suc i0)) [0..<Suc k]"
    using assms(1) by (simp add: lev_matrix_nth lev_row_def)
  have r_cur: "?M ! Suc i0 ! k = lev_table a b (Suc i0) k"
    unfolding row by (simp del: upt_Suc)
  have p1: "?M ! i0 ! k = lev_table a b i0 k"
    using assms(2) by (simp add: r_prev)
  have p2: "?M ! i0 ! Suc k = lev_table a b i0 (Suc k)"
    using assms(2) by (simp add: r_prev)
  have "lev_cell a b (Suc i0) (Suc k) ?M
          = set_cell ?M (Suc i0) (Suc k) (lev_table a b (Suc i0) (Suc k))"
    unfolding lev_cell_def by (simp add: p1 p2 r_cur)
  also have "\<dots> = ?M[Suc i0 := map (lev_table a b (Suc i0)) [0..<Suc (Suc k)]]"
    unfolding set_cell_def row
    using js_assign_map_upt[of "lev_table a b (Suc i0)" "Suc k"] by simp
  also have "\<dots> = lev_matrix a b (Suc i0) (Suc k)"
    using assms(1) by (rule lev_matrix_update)
  finally show ?thesis .
qed

lemma lev_inner_loop:
  assumes "Suc i0 \<le> length b" and "k \<le> length a"
  shows "fold (\<lambda>j m'. lev_cell a b (Suc i0) j m') [1..<Suc k] (lev_matrix a b (Suc i0) 0)
           = lev_matrix a b (Suc i0) k"
  using assms(2)
proof (induction k)
  case 0
  then show ?case by simp
next
  case (Suc k)
  then have "fold (\<lambda>j m'. lev_cell a b (Suc i0) j m') [1..<Suc k] (lev_matrix a b (Suc i0) 0)
               = lev_matrix a b (Suc i0) k"
    by simp
  moreover have "[1..<Suc (Suc k)] = [1..<Suc k] @ [Suc k]" by simp
  ultimately show ?case
    using lev_cell_step[OF assms(1), of k a] Suc.prems by (simp del: upt_Suc)
qed

lemma lev_next_row:
  "lev_matrix a b i (length a) = lev_matrix a b (Suc i) 0"
  unfolding lev_matrix_def
proof (rule map_cong[OF refl])
  fix x
  consider "x < i" | "x = i" | "x = Suc i" | "Suc i < x" by linarith
  then show "lev_row a b i (length a) x = lev_row a b (Suc i) 0 x"
    by cases (simp_all add: lev_row_def)
qed

lemma lev_outer_loop:
  assumes "k \<le> length b"
  shows "fold (\<lambda>i m. fold (\<lambda>j m'. lev_cell a b i j m') [1..<Suc (length a)] m) [1..<Suc k]
           (lev_matrix a b 0 (length a)) = lev_matrix a b k (length a)"
  using assms
proof (induction k)
  case 0
  then show ?case by simp
next
  case (Suc k)
  then have "fold (\<lambda>i m. fold (\<lambda>j m'. lev_cell a b i j m') [1..<Suc (length a)] m) [1..<Suc k]
           (lev_matrix a b 0 (length a)) = lev_matrix a b k (length a)"
    by simp
  moreover have "[1..<Suc (Suc k)] = [1..<Suc k] @ [Suc k]" by simp
  moreover have "fold (\<lambda>j m'. lev_cell a b (Suc k) j m') [1..<Suc (length a)]
                   (lev_matrix a b (Suc k) 0) = lev_matrix a b (Suc k) (length a)"
    using Suc.prems by (intro lev_inner_loop) simp_all
  ultimately show ?case
    by (simp add: lev_next_row del: upt_Suc)
qed

lemma lev_first_row:
  "fold (\<lambda>j m. set_cell m 0 j j) [0..<Suc k] (map (\<lambda>i. [i]) [0..<Suc (length b)])
     = lev_matrix a b 0 k"
proof (induction k)
  case 0
  have "map (\<lambda>i. [i]) [0..<Suc (length b)] = lev_matrix a b 0 0"
    unfolding lev_matrix_def by (rule map_cong[OF refl]) (simp add: lev_row_def)
  moreover have "set_cell (lev_matrix a b 0 0) 0 0 0 = lev_matrix a b 0 0"
  proof -
    have r: "lev_matrix a b 0 0 ! 0 = [0]"
      by (simp add: lev_matrix_nth lev_row_def)
    have "set_cell (lev_matrix a b 0 0) 0 0 0 = (lev_matrix a b 0 0)[0 := lev_matrix a b 0 0 ! 0]"
      by (simp add: set_cell_def r js_assign_def)
    then show ?thesis by (simp only: list_update_id)
  qed
  ultimately show ?case by simp
next
  case (Suc k)
  have row: "lev_matrix a b 0 k ! 0 = map (lev_table a b 0) [0..<Suc k]"
    by (simp add: lev_matrix_nth lev_row_def)
  have "set_cell (lev_matrix a b 0 k) 0 (Suc k) (Suc k)
          = (lev_matrix a b 0 k)[0 := map (lev_table a b 0) [0..<Suc (Suc k)]]"
    unfolding set_cell_def row
    using js_assign_map_upt[of "lev_table a b 0" "Suc k"] by simp
  also have "\<dots> = lev_matrix a b 0 (Suc k)"
    by (rule lev_matrix_update) simp
  finally have "set_cell (lev_matrix a b 0 k) 0 (Suc k) (Suc k) = lev_matrix a b 0 (Suc k)" .
  moreover have "[0..<Suc (Suc k)] = [0..<Suc k] @ [Suc k]" by simp
  ultimately show ?case
    using Suc.IH by (simp del: upt_Suc)
qed

lemma levenshteinDistance_table:
  "levenshteinDistance a b = lev_table a b (length b) (length a)"
proof -
  have "levenshteinDistance a b = lev_matrix a b (length b) (length a) ! length b ! length a"
    unfolding levenshteinDistance_def Let_def
    by (simp only: lev_init_rows lev_first_row[where a = a and k = "length a"]
          lev_outer_loop[OF order_refl])
  then show ?thesis
    by (simp add: lev_matrix_nth lev_row_def del: upt_Suc)
qed

subsection \<open>The table is the edit distance\<close>

lemma lev_prefix_col0: "lev_prefix x y i 0 = i"
  by (cases i) simp_all

lemma lev_prefix_step_right: "lev_prefix x y i (Suc j) \<le> lev_prefix x y i j + 1"
  by (cases i) simp_all

lemma lev_prefix_drop_row: "lev_prefix x y i j \<le> lev_prefix x y (Suc i) j + 1"
proof (induction j)
  case 0
  then show ?case by (simp add: lev_prefix_col0)
next
  case (Suc j)
  have a: "lev_prefix x y i (Suc j) \<le> lev_prefix x y i j + 1"
    by (rule lev_prefix_step_right)
  show ?case
    using Suc.IH a by (simp add: min_def)
qed

lemma lev_prefix_sym: "lev_prefix x y i j = lev_prefix y x j i"
proof (induction x y i j rule: lev_prefix.induct)
  case (1 x y j)
  then show ?case by (simp add: lev_prefix_col0)
next
  case (2 x y i)
  then show ?case by simp
next
  case (3 x y i j)
  then show ?case by (simp add: min.commute min.left_commute eq_commute[of "x ! i"])
qed

lemma lev_prefix_drop_col: "lev_prefix x y i j \<le> lev_prefix x y i (Suc j) + 1"
  using lev_prefix_drop_row[of y x j i] by (simp add: lev_prefix_sym[of x y])

lemma lev_table_prefix: "lev_table a b i j = lev_prefix b a i j"
proof (induction a b i j rule: lev_table.induct)
  case (1 a b j)
  then show ?case by simp
next
  case (2 a b i)
  then show ?case by simp
next
  case (3 a b i j)
  show ?case
  proof (cases "b ! i = a ! j")
    case True
    have "lev_prefix b a i j \<le> lev_prefix b a i (Suc j) + 1"
      by (rule lev_prefix_drop_col)
    moreover have "lev_prefix b a i j \<le> lev_prefix b a (Suc i) j + 1"
      by (rule lev_prefix_drop_row)
    ultimately show ?thesis
      using True 3 by simp
  next
    case False
    then show ?thesis
      using 3 by (simp add: min.commute min.left_commute)
  qed
qed

lemma levenshteinDistance_levenshtein: "levenshteinDistance a b = levenshtein a b"
  by (simp add: levenshteinDistance_table lev_table_prefix levenshtein_def lev_prefix_sym[of a b])

lemma slice0_take: "0 \<le> n \<Longrightarrow> slice0 xs n = take (nat n) xs"
  by (simp add: slice0_def)

lemma getSuggestions_spec:
  "getSuggestions api nm =
     take 5 (map name
       (filter (\<lambda>c. sublist (toLowerCase nm) (toLowerCase (name c))
                   \<or> sublist (toLowerCase (name c)) (toLowerCase nm)
                   \<or> levenshtein (toLowerCase (name c)) (toLowerCase nm) \<le> 3)
          (components api)))"
  by (simp add: getSuggestions_def getAllComponents_def Let_def slice0_take take_map
        str_includes_sublist levenshteinDistance_levenshtein)

text \<open>
  Claim C5: for every name that resolves to no record, the lookup tool returns the
  \<open>COMPONENT_NOT_FOUND\<close> error with a suggestions list of at most 5 entries: the names
  of the first five records of the store, in the store's order, whose lowercased name
  contains the lowercased query, is contained in it, or is at Levenshtein distance at
  most 3 from it. Every entry is therefore the name of a cataloged record of that kind.
\<close>

theorem not_found_suggestions:
  "getComponent api nm = None \<longrightarrow>
     (\<exists>nf. tool_getComponent api nm = Inl nf
        \<and> nf_error nf = ''COMPONENT_NOT_FOUND''
        \<and> length (nf_suggestions nf) \<le> 5
        \<and> nf_suggestions nf =
            take 5 (map name
              (filter (\<lambda>c. sublist (toLowerCase nm) (toLowerCase (name c))
                          \<or> sublist (toLowerCase (name c)) (toLowerCase nm)
                          \<or> levenshtein (toLowerCase (name c)) (toLowerCase nm) \<le> 3)
                 (components api)))
        \<and> (\<forall>s \<in> set (nf_suggestions nf).
              \<exists>c \<in> set (components api). name c = s
                \<and> (sublist (toLowerCase nm) (toLowerCase (name c))
                     \<or> sublist (toLowerCase (name c)) (toLowerCase nm)
                     \<or> levenshtein (toLowerCase (name c)) (toLowerCase nm) \<le> 3)))"
proof
  assume nf: "getComponent api nm = None"
  let ?P = "\<lambda>c. sublist (toLowerCase nm) (toLowerCase (name c))
                          \<or> sublist (toLowerCase (name c)) (toLowerCase nm)
                          \<or> levenshtein (toLowerCase (name c)) (toLowerCase nm) \<le> 3"
  let ?r = "\<lparr> nf_error = ''COMPONENT_NOT_FOUND'',
              nf_message = ''Component '' @ dq @ nm @ dq @ '' not found in registry'',
              nf_suggestions = getSuggestions api nm \<rparr>"
  have r: "tool_getComponent api nm = Inl ?r"
    using nf by (simp add: tool_getComponent_def)
  have s: "nf_suggestions ?r = take 5 (map name (filter ?P (components api)))"
    by (simp add: getSuggestions_spec)
  have m: "\<forall>s \<in> set (nf_suggestions ?r). \<exists>c \<in> set (components api). name c = s \<and> ?P c"
  proof
    fix s assume "s \<in> set (nf_suggestions ?r)"
    then have "s \<in> set (map name (filter ?P (components api)))"
      unfolding s by (rule in_set_takeD)
    then show "\<exists>c \<in> set (components api). name c = s \<and> ?P c"
      by auto
  qed
  have l: "length (nf_suggestions ?r) \<le> 5"
    unfolding s by simp
  have e: "nf_error ?r = ''COMPONENT_NOT_FOUND''" by simp
  from r e l s m show "\<exists>nf. tool_getComponent api nm = Inl nf
        \<and> nf_error nf = ''COMPONENT_NOT_FOUND''
        \<and> length (nf_suggestions nf) \<le> 5
        \<and> nf_suggestions nf = take 5 (map name (filter ?P (components api)))
        \<and> (\<forall>s \<in> set (nf_suggestions nf). \<exists>c \<in> set (components api). name c = s \<and> ?P c)"
    by (intro exI[of _ ?r] conjI)
qed

theorem not_found_suggestions_witness:
  "getComponent (AgentAPI_constructor componentRegistry) ''Buton'' = None
   \<and> tool_getComponent (AgentAPI_constructor componentRegistry) ''Buton''
       = Inl \<lparr> nf_error = ''COMPONENT_NOT_FOUND'',
               nf_message = ''Component '' @ dq @ ''Buton'' @ dq @ '' not found in registry'',
               nf_suggestions = [''Button''] \<rparr>
   \<and> (\<exists>nf. tool_getComponent (AgentAPI_constructor componentRegistry) ''Buton'' = Inl nf
        \<and> length (nf_suggestions nf) \<le> 5
        \<and> nf_suggestions nf =
            take 5 (map name
              (filter (\<lambda>c. sublist (toLowerCase ''Buton'') (toLowerCase (name c))
                          \<or> sublist (toLowerCase (name c)) (toLowerCase ''Buton'')
                          \<or> levenshtein (toLowerCase (name c)) (toLowerCase ''Buton'') \<le> 3)
                 (components (AgentAPI_constructor componentRegistry)))))"
proof -
  have h: "getComponent (AgentAPI_constructor componentRegistry) ''Buton'' = None"
    by code_simp
  have v: "tool_getComponent (AgentAPI_constructor componentRegistry) ''Buton''
       = Inl \<lparr> nf_error = ''COMPONENT_NOT_FOUND'',
               nf_message = ''Component '' @ dq @ ''Buton'' @ dq @ '' not found in registry'',
               nf_suggestions = [''Button''] \<rparr>"
    by code_simp
  have "\<exists>nf. tool_getComponent (AgentAPI_constructor componentRegistry) ''Buton'' = Inl nf
        \<and> length (nf_suggestions nf) \<le> 5
        \<and> nf_suggestions nf =
            take 5 (map name
              (filter (\<lambda>c. sublist (toLowerCase ''Buton'') (toLowerCase (name c))
                          \<or> sublist (toLowerCase (name c)) (toLowerCase ''Buton'')
                          \<or> levenshtein (toLowerCase (name c)) (toLowerCase ''Buton'') \<le> 3)
                 (components (AgentAPI_constructor componentRegistry))))"
    using not_found_suggestions[of "AgentAPI_constructor componentRegistry" "''Buton''"] h
    by blast
  with h v show ?thesis by blast
qed

end
